theory Spec2Isabelle
  imports Complex_Main
begin

section \<open>Machine integers and float64 values\<close>

text \<open>
  Go's \<^verbatim>\<open>int64\<close> is modelled as \<^typ>\<open>int\<close> with the two's-complement wrap-around
  written out: \<open>int64 x\<close> is the value an \<^verbatim>\<open>int64\<close> variable holds after an arithmetic
  operation whose mathematical result is \<open>x\<close>.
\<close>

definition is_int64 :: "int \<Rightarrow> bool" where
  "is_int64 x \<longleftrightarrow> - (2 ^ 63) \<le> x \<and> x < 2 ^ 63"

definition int64 :: "int \<Rightarrow> int" where
  "int64 x = (x + 2 ^ 63) mod 2 ^ 64 - 2 ^ 63"

text \<open>
  A \<^verbatim>\<open>float64\<close> is a finite binary value \<open>m * 2 ^ e\<close> (constructor \<open>Fin m e\<close>),
  an infinity or a NaN.  Arithmetic computes the exact result on the pairs \<open>(m, e)\<close>
  and rounds it to the nearest \<^verbatim>\<open>float64\<close> as IEEE-754 prescribes.
\<close>

datatype f64 = Fin int int | PInf | NInf | NaN

fun f64_real :: "f64 \<Rightarrow> real" where
  "f64_real (Fin m e) = of_int m * 2 powi e"
| "f64_real PInf = 0"
| "f64_real NInf = 0"
| "f64_real NaN = 0"

text \<open>
  Rounding of a non-negative ratio \<open>a / b\<close> to the nearest \<^verbatim>\<open>float64\<close> (round half
  to even, 53-bit significand, gradual underflow below \<open>2 ^ - 1022\<close>), as mantissa and
  exponent.
\<close>

fun bitlen :: "nat \<Rightarrow> nat" where
  "bitlen n = (if n = 0 then 0 else Suc (bitlen (n div 2)))"

definition floor_log2 :: "nat \<Rightarrow> nat \<Rightarrow> int" where
  "floor_log2 a b =
     (let d = int (bitlen a) - int (bitlen b) in
      if (if 0 \<le> d then b * 2 ^ nat d \<le> a else b \<le> a * 2 ^ nat (- d)) then d else d - 1)"

definition round_half_even :: "nat \<Rightarrow> nat \<Rightarrow> nat" where
  "round_half_even num den =
     (let f = num div den; r = num mod den in
      if 2 * r < den then f
      else if den < 2 * r then f + 1
      else if even f then f else f + 1)"

definition nearest_f64 :: "nat \<Rightarrow> nat \<Rightarrow> nat \<times> int" where
  "nearest_f64 a b =
     (if a = 0 then (0, 0)
      else
        let p = max (floor_log2 a b) (- 1022) - 52 in
        (if 0 \<le> p then round_half_even a (b * 2 ^ nat p)
         else round_half_even (a * 2 ^ nat (- p)) b, p))"

text \<open>
  The rounded value of \<open>\<plusminus> a / b\<close>.  The mantissa of a rounded value is between
  \<open>2 ^ 52\<close> and \<open>2 ^ 53\<close> unless the value is subnormal, so the value reaches \<open>2 ^ 1024\<close>,
  and is an infinity, exactly when the exponent exceeds 971 or the mantissa is \<open>2 ^ 53\<close>
  at exponent 971.
\<close>

definition f64_of_ratio :: "bool \<Rightarrow> nat \<Rightarrow> nat \<Rightarrow> f64" where
  "f64_of_ratio negative a b =
     (let (m, p) = nearest_f64 a b in
      if 971 < p \<or> (p = 971 \<and> 2 ^ 53 \<le> m) then (if negative then NInf else PInf)
      else Fin (if negative then - int m else int m) p)"

fun f64_neg :: "f64 \<Rightarrow> f64" where
  "f64_neg (Fin m e) = Fin (- m) e"
| "f64_neg PInf = NInf"
| "f64_neg NInf = PInf"
| "f64_neg NaN = NaN"

text \<open>Comparison \<open>a < b\<close> of IEEE-754: false as soon as one side is a NaN.\<close>

fun f64_lt :: "f64 \<Rightarrow> f64 \<Rightarrow> bool" where
  "f64_lt (Fin m1 e1) (Fin m2 e2) =
     (let e = min e1 e2 in m1 * 2 ^ nat (e1 - e) < m2 * 2 ^ nat (e2 - e))"
| "f64_lt NaN b = False"
| "f64_lt a NaN = False"
| "f64_lt PInf b = False"
| "f64_lt a NInf = False"
| "f64_lt NInf b = True"
| "f64_lt a PInf = True"

definition f64_sign :: "f64 \<Rightarrow> int" where
  "f64_sign a = (if f64_lt a (Fin 0 0) then - 1 else if f64_lt (Fin 0 0) a then 1 else 0)"

definition f64_inf :: "int \<Rightarrow> f64" where
  "f64_inf sg = (if sg = 0 then NaN else if sg < 0 then NInf else PInf)"

fun f64_mul :: "f64 \<Rightarrow> f64 \<Rightarrow> f64" where
  "f64_mul (Fin m1 e1) (Fin m2 e2) =
     (let m = m1 * m2; e = e1 + e2 in
      f64_of_ratio (m < 0) (nat \<bar>m\<bar> * 2 ^ nat e) (2 ^ nat (- e)))"
| "f64_mul NaN b = NaN"
| "f64_mul a NaN = NaN"
| "f64_mul a b = f64_inf (f64_sign a * f64_sign b)"

fun f64_div :: "f64 \<Rightarrow> f64 \<Rightarrow> f64" where
  "f64_div (Fin m1 e1) (Fin m2 e2) =
     (if m2 = 0 then f64_inf (sgn m1)
      else
        let e = e1 - e2 in
        f64_of_ratio ((m1 < 0) \<noteq> (m2 < 0)) (nat \<bar>m1\<bar> * 2 ^ nat e) (nat \<bar>m2\<bar> * 2 ^ nat (- e)))"
| "f64_div NaN b = NaN"
| "f64_div a NaN = NaN"
| "f64_div (Fin m e) b = Fin 0 0"
| "f64_div a (Fin m e) = f64_inf (f64_sign a * (if m < 0 then - 1 else 1))"
| "f64_div a b = NaN"

text \<open>\<^verbatim>\<open>float64(n)\<close> for an \<^verbatim>\<open>int64\<close>: exact below \<open>2 ^ 53\<close>, rounded above.\<close>

definition float64_of_int64 :: "int \<Rightarrow> f64" where
  "float64_of_int64 n = f64_of_ratio (n < 0) (nat \<bar>n\<bar>) 1"

text \<open>Truncation toward zero of \<open>m * 2 ^ e\<close>, by integer arithmetic.\<close>

definition trunc_f64 :: "int \<Rightarrow> int \<Rightarrow> int" where
  "trunc_f64 m e =
     (if 0 \<le> e then m * 2 ^ nat e
      else if 0 \<le> m then m div 2 ^ nat (- e)
      else - ((- m) div 2 ^ nat (- e)))"

text \<open>
  The conversion \<^verbatim>\<open>int64(f)\<close>.  Go truncates toward zero; when the truncated value does
  not fit (or \<open>f\<close> is an infinity or a NaN) the language leaves the result to the
  implementation.  The repository's Makefile builds for \<^verbatim>\<open>GOARCH=amd64\<close> only, where the
  conversion instruction then yields \<open>- 2 ^ 63\<close>.
\<close>

fun int64_of_f64 :: "f64 \<Rightarrow> int" where
  "int64_of_f64 (Fin m e) = (let t = trunc_f64 m e in if is_int64 t then t else - (2 ^ 63))"
| "int64_of_f64 PInf = - (2 ^ 63)"
| "int64_of_f64 NInf = - (2 ^ 63)"
| "int64_of_f64 NaN = - (2 ^ 63)"

text \<open>Go's integer division truncates toward zero.\<close>

definition go_div :: "int \<Rightarrow> int \<Rightarrow> int" where
  "go_div a b = sgn a * sgn b * (\<bar>a\<bar> div \<bar>b\<bar>)"

text \<open>Truncation toward zero of a real number, to state what the conversion computes.\<close>

definition trunc_real :: "real \<Rightarrow> int" where
  "trunc_real x = (if 0 \<le> x then \<lfloor>x\<rfloor> else \<lceil>x\<rceil>)"

section \<open>Library string functions used by the size parser\<close>

text \<open>
  Go strings are byte sequences: \<^typ>\<open>string\<close>.  \<^verbatim>\<open>strings.TrimSpace\<close> removes leading
  and trailing Unicode white space; on UTF-8 bytes these are the six ASCII characters
  and the encodings of U+0085, U+00A0, U+1680, U+2000 to U+200A, U+2028, U+2029,
  U+202F, U+205F and U+3000.
\<close>

definition space_runes :: "string list" where
  "space_runes =
     map (\<lambda>c. [c]) [CHR 0x09, CHR 0x0A, CHR 0x0B, CHR 0x0C, CHR 0x0D, CHR 0x20] @
     [[CHR 0xC2, CHR 0x85], [CHR 0xC2, CHR 0xA0], [CHR 0xE1, CHR 0x9A, CHR 0x80]] @
     map (\<lambda>c. [CHR 0xE2, CHR 0x80, c])
       [CHR 0x80, CHR 0x81, CHR 0x82, CHR 0x83, CHR 0x84, CHR 0x85, CHR 0x86, CHR 0x87,
        CHR 0x88, CHR 0x89, CHR 0x8A, CHR 0xA8, CHR 0xA9, CHR 0xAF] @
     [[CHR 0xE2, CHR 0x81, CHR 0x9F], [CHR 0xE3, CHR 0x80, CHR 0x80]]"

definition HasPrefix :: "string \<Rightarrow> string \<Rightarrow> bool" where
  "HasPrefix s p \<longleftrightarrow> take (length p) s = p"

definition HasSuffix :: "string \<Rightarrow> string \<Rightarrow> bool" where
  "HasSuffix s x \<longleftrightarrow> length x \<le> length s \<and> drop (length s - length x) s = x"

definition TrimSuffix :: "string \<Rightarrow> string \<Rightarrow> string" where
  "TrimSuffix s x = (if HasSuffix s x then take (length s - length x) s else s)"

definition leading_space :: "string \<Rightarrow> nat" where
  "leading_space s = (case List.find (HasPrefix s) space_runes of None \<Rightarrow> 0 | Some w \<Rightarrow> length w)"

definition trailing_space :: "string \<Rightarrow> nat" where
  "trailing_space s = (case List.find (HasSuffix s) space_runes of None \<Rightarrow> 0 | Some w \<Rightarrow> length w)"

function TrimLeftSpace :: "string \<Rightarrow> string" where
  "TrimLeftSpace s = (if leading_space s = 0 then s else TrimLeftSpace (drop (leading_space s) s))"
  by pat_completeness auto

lemma leading_space_le: "leading_space s \<le> length s"
proof (cases "List.find (HasPrefix s) space_runes")
  case None
  then show ?thesis by (simp add: leading_space_def)
next
  case (Some w)
  then have "HasPrefix s w" by (auto simp: find_Some_iff)
  then have "length w \<le> length s"
    by (metis HasPrefix_def length_take min.cobounded1)
  with Some show ?thesis by (simp add: leading_space_def)
qed

termination TrimLeftSpace
proof (relation "measure length")
  show "wf (measure length)" by simp
next
  fix s :: string
  assume "leading_space s \<noteq> 0"
  then show "(drop (leading_space s) s, s) \<in> measure length"
    using leading_space_le [of s] by simp
qed

function TrimRightSpace :: "string \<Rightarrow> string" where
  "TrimRightSpace s =
     (if trailing_space s = 0 then s else TrimRightSpace (take (length s - trailing_space s) s))"
  by pat_completeness auto

lemma trailing_space_le: "trailing_space s \<le> length s"
proof (cases "List.find (HasSuffix s) space_runes")
  case None
  then show ?thesis by (simp add: trailing_space_def)
next
  case (Some w)
  then have "HasSuffix s w" by (auto simp: find_Some_iff)
  with Some show ?thesis by (simp add: trailing_space_def HasSuffix_def)
qed

termination TrimRightSpace
proof (relation "measure length")
  show "wf (measure length)" by simp
next
  fix s :: string
  assume "trailing_space s \<noteq> 0"
  then show "(take (length s - trailing_space s) s, s) \<in> measure length"
    using trailing_space_le [of s] by simp
qed

definition TrimSpace :: "string \<Rightarrow> string" where
  "TrimSpace s = TrimRightSpace (TrimLeftSpace s)"

definition ToUpper_char :: "char \<Rightarrow> char" where
  "ToUpper_char c =
     (case map_of (zip ''abcdefghijklmnopqrstuvwxyz'' ''ABCDEFGHIJKLMNOPQRSTUVWXYZ'') c of
        None \<Rightarrow> c
      | Some u \<Rightarrow> u)"

text \<open>
  \<^verbatim>\<open>strings.ToUpper\<close>, on the ASCII letters.  A byte outside ASCII is left as it is:
  Go maps the rune it belongs to to its upper case, which is never one of the
  characters the size pattern accepts, so the pattern rejects the string either way.
\<close>

definition ToUpper :: "string \<Rightarrow> string" where
  "ToUpper s = map ToUpper_char s"

section \<open>The size parser (main.go)\<close>

text \<open>
  The pattern \<^verbatim>\<open>^(\d+(?:\.\d+)?)\s*([KMGT]?B?)?$\<close>, matched from left to right.  The
  character classes of its three parts are disjoint, so the greedy reading is the only
  possible match; the result is the pair of the two capture groups.
\<close>

definition is_digit :: "char \<Rightarrow> bool" where
  "is_digit c \<longleftrightarrow> c \<in> set ''0123456789''"

definition is_re_space :: "char \<Rightarrow> bool" where
  "is_re_space c \<longleftrightarrow> c \<in> set [CHR 0x09, CHR 0x0A, CHR 0x0C, CHR 0x0D, CHR 0x20]"

text \<open>The ten strings of \<^verbatim>\<open>[KMGT]?B?\<close>.\<close>

definition unit_re :: "string \<Rightarrow> bool" where
  "unit_re u \<longleftrightarrow>
     u \<in> set [[], ''B'', ''K'', ''KB'', ''M'', ''MB'', ''G'', ''GB'', ''T'', ''TB'']"

text \<open>The first group \<^verbatim>\<open>(\d+(?:\.\d+)?)\<close> and the rest of the string.\<close>

definition number_re :: "string \<Rightarrow> (string \<times> string) option" where
  "number_re s =
     (let whole = takeWhile is_digit s; r1 = dropWhile is_digit s in
      if whole = [] then None
      else
        (case r1 of
           [] \<Rightarrow> Some (whole, r1)
         | c # r \<Rightarrow>
             if c = CHR ''.'' \<and> takeWhile is_digit r \<noteq> []
             then Some (whole @ [c] @ takeWhile is_digit r, dropWhile is_digit r)
             else Some (whole, r1)))"

definition FindStringSubmatch :: "string \<Rightarrow> (string \<times> string) option" where
  "FindStringSubmatch s =
     (case number_re s of
        None \<Rightarrow> None
      | Some (number, r2) \<Rightarrow>
          let unit = dropWhile is_re_space r2 in
          if unit_re unit then Some (number, unit) else None)"

datatype NumError = ErrSyntax | ErrRange

datatype parse_error =
    InvalidPercentage string
  | PercentageOutOfRange f64
  | InvalidSizeFormat string
  | FloatError NumError
  | UnsupportedUnit string

text \<open>The \<^verbatim>\<open>switch unit\<close> of \<^verbatim>\<open>parseSize\<close>; \<open>None\<close> is its \<^verbatim>\<open>default\<close> branch.\<close>

definition unit_multiplier :: "string \<Rightarrow> int option" where
  "unit_multiplier unit =
     (if unit = [] \<or> unit = ''B'' then Some 1
      else if unit = ''KB'' \<or> unit = ''K'' then Some 1024
      else if unit = ''MB'' \<or> unit = ''M'' then Some (1024 * 1024)
      else if unit = ''GB'' \<or> unit = ''G'' then Some (1024 * 1024 * 1024)
      else if unit = ''TB'' \<or> unit = ''T'' then Some (1024 * 1024 * 1024 * 1024)
      else None)"

text \<open>
  The specification's unit index: the result is to be \<open>number * 1024 ^ unitIndex\<close>, with
  index 0 for no unit and \<^verbatim>\<open>B\<close>, 1 for \<^verbatim>\<open>KB/K\<close>, 2 for \<^verbatim>\<open>MB/M\<close>, 3 for \<^verbatim>\<open>GB/G\<close>
  and 4 for \<^verbatim>\<open>TB/T\<close>.
\<close>

definition spec_unit_index :: "string \<Rightarrow> nat" where
  "spec_unit_index u =
     (if u \<in> {''KB'', ''K''} then 1
      else if u \<in> {''MB'', ''M''} then 2
      else if u \<in> {''GB'', ''G''} then 3
      else if u \<in> {''TB'', ''T''} then 4
      else 0)"

text \<open>
  \<^verbatim>\<open>parseSize\<close>.  \<^verbatim>\<open>strconv.ParseFloat\<close> belongs to Go's library and accepts far more
  than decimal digits (signs, exponents, hexadecimal floats, infinities, NaN); it is the
  parameter \<open>ParseFloat\<close>, which returns the parsed value or the library's error.
\<close>

definition parseSize :: "(string \<Rightarrow> NumError + f64) \<Rightarrow> string \<Rightarrow> parse_error + int" where
  "parseSize ParseFloat sizeStr0 =
     (let sizeStr = TrimSpace sizeStr0 in
      if HasSuffix sizeStr ''%'' then
        let percentStr = TrimSuffix sizeStr ''%'' in
        (case ParseFloat percentStr of
           Inl err \<Rightarrow> Inl (InvalidPercentage percentStr)
         | Inr percent \<Rightarrow>
             if f64_lt percent (float64_of_int64 0) \<or> f64_lt (float64_of_int64 100) percent
             then Inl (PercentageOutOfRange percent)
             else Inr (int64_of_f64 (f64_neg percent)))
      else
        (case FindStringSubmatch (ToUpper sizeStr) of
           None \<Rightarrow> Inl (InvalidSizeFormat sizeStr)
         | Some (number, unit) \<Rightarrow>
             (case ParseFloat number of
                Inl err \<Rightarrow> Inl (FloatError err)
              | Inr val \<Rightarrow>
                  (case unit_multiplier unit of
                     None \<Rightarrow> Inl (UnsupportedUnit unit)
                   | Some multiplier \<Rightarrow>
                       Inr (int64_of_f64 (f64_mul val (float64_of_int64 multiplier)))))))"

text \<open>
  \<^verbatim>\<open>strconv.ParseFloat\<close> on the plain decimal numerals \<^verbatim>\<open>digits[.digits]\<close>, which is
  all the pattern above can hand to it: the nearest \<^verbatim>\<open>float64\<close>, or a range error
  when that is beyond the largest finite value.  Any other syntax is answered with
  \<open>ErrSyntax\<close> here, although Go accepts some of it; the theorems about the percentage
  branch therefore hold for an arbitrary \<open>ParseFloat\<close>.
\<close>

definition digit_value :: "char \<Rightarrow> nat" where
  "digit_value c = of_char c - 48"

definition decimal_value :: "string \<Rightarrow> nat" where
  "decimal_value ds = foldl (\<lambda>acc c. 10 * acc + digit_value c) 0 ds"

definition float_of_ratio :: "nat \<Rightarrow> nat \<Rightarrow> NumError + f64" where
  "float_of_ratio a b = (case f64_of_ratio False a b of Fin m p \<Rightarrow> Inr (Fin m p) | _ \<Rightarrow> Inl ErrRange)"

definition ParseFloat_decimal :: "string \<Rightarrow> NumError + f64" where
  "ParseFloat_decimal s =
     (let whole = takeWhile is_digit s; r = dropWhile is_digit s in
      if whole = [] then Inl ErrSyntax
      else if r = [] then float_of_ratio (decimal_value whole) 1
      else if hd r = CHR ''.'' \<and> tl r \<noteq> [] \<and> list_all is_digit (tl r)
      then float_of_ratio (decimal_value (whole @ tl r)) (10 ^ length (tl r))
      else Inl ErrSyntax)"

text \<open>
  How both \<^verbatim>\<open>GenerateLoad\<close> functions (memory.go, storage.go) read the parsed size: a
  negative value is a percentage, anything else an absolute byte count.
\<close>

datatype load_mode = Dynamic real | Static int

definition GenerateLoad_mode :: "int \<Rightarrow> load_mode" where
  "GenerateLoad_mode sz =
     (if sz < 0 then Dynamic (f64_real (float64_of_int64 (int64 (- sz)))) else Static sz)"


section \<open>The percentage target (memory.go, storage.go)\<close>

datatype calc_error =
    InsufficientFreeMemory
  | InvalidMemorySize
  | ProbeFailed
  | InvalidStorageSize

text \<open>The float constants \<^verbatim>\<open>100.0\<close>, \<^verbatim>\<open>0.95\<close> and \<^verbatim>\<open>0.90\<close>.\<close>

definition float_100 :: f64 where
  "float_100 = f64_of_ratio False 100 1"

definition float_0_95 :: f64 where
  "float_0_95 = f64_of_ratio False 95 100"

definition float_0_90 :: f64 where
  "float_0_90 = f64_of_ratio False 90 100"

text \<open>
  \<^verbatim>\<open>calculatePercentageSize\<close> of memory.go.  Its input from the environment is
  \<^verbatim>\<open>memStats.Sys\<close>, an unsigned 64-bit count read anew by every call.
\<close>

definition calculatePercentageSize_memory :: "f64 \<Rightarrow> nat \<Rightarrow> calc_error + int" where
  "calculatePercentageSize_memory percent sys =
     (let totalSystemMemory = 8 * 1024 * 1024 * 1024;
          usedMemory = int64 (int sys);
          freeMemory = int64 (totalSystemMemory - usedMemory) in
      if freeMemory \<le> 0 then Inl InsufficientFreeMemory
      else
        let targetSize = int64_of_f64 (f64_div (f64_mul (float64_of_int64 freeMemory) percent) float_100);
            targetSize = int64_of_f64 (f64_mul (float64_of_int64 targetSize) float_0_95) in
        if targetSize \<le> 0 then Inl InvalidMemorySize else Inr targetSize)"

text \<open>
  \<^verbatim>\<open>calculatePercentageSize\<close> of storage.go.  Its input is what \<^verbatim>\<open>os.Getwd\<close> and
  \<^verbatim>\<open>getDiskFreeSpace\<close> answer at this call: an error, or the free bytes.
\<close>

definition calculatePercentageSize_storage :: "f64 \<Rightarrow> calc_error + int \<Rightarrow> calc_error + int" where
  "calculatePercentageSize_storage percent probe =
     (case probe of
        Inl err \<Rightarrow> Inl err
      | Inr freeSpace \<Rightarrow>
          let targetSize = int64_of_f64 (f64_div (f64_mul (float64_of_int64 freeSpace) percent) float_100);
              targetSize = int64_of_f64 (f64_mul (float64_of_int64 targetSize) float_0_90) in
          if targetSize \<le> 0 then Inl InvalidStorageSize else Inr targetSize)"

section \<open>The dynamic memory controller (memory.go)\<close>

text \<open>
  The controller's variables: the held buffers, each by its length, and the running
  total.  One tick of the loop reads from its environment \<^verbatim>\<open>memStats.Sys\<close> and whether
  the allocation of this tick (if any) succeeds; a failed allocation is a fatal runtime
  error that ends the whole process, the result \<open>None\<close>.
\<close>

record mem_state =
  buffers :: "int list"
  totalAllocated :: int

record mem_env =
  mem_sys :: nat
  alloc_ok :: bool

datatype mem_msg =
    MemError calc_error
  | MemInitial int
  | MemRecalcError calc_error
  | MemIncreased int int
  | MemDecreased int int
  | MemStats int
  | MemStopping

text \<open>
  The release loop
  \<^verbatim>\<open>for i := len(buffers) - 1; i > 0 && releasedSize < excessSize; i--\<close>, by its index.
\<close>

fun release_loop :: "nat \<Rightarrow> int list \<Rightarrow> int \<Rightarrow> int \<Rightarrow> int \<Rightarrow> int list \<times> int \<times> int" where
  "release_loop 0 bufs releasedSize excessSize allocated = (bufs, releasedSize, allocated)"
| "release_loop (Suc j) bufs releasedSize excessSize allocated =
     (if releasedSize < excessSize then
        let bufferSize = bufs ! Suc j in
        release_loop j (take (Suc j) bufs) (int64 (releasedSize + bufferSize)) excessSize
          (int64 (allocated - bufferSize))
      else (bufs, releasedSize, allocated))"

definition mem_tick :: "f64 \<Rightarrow> mem_env \<Rightarrow> mem_state \<Rightarrow> (mem_state \<times> mem_msg list) option" where
  "mem_tick percent env s =
     (case calculatePercentageSize_memory percent (mem_sys env) of
        Inl err \<Rightarrow> Some (s, [MemRecalcError err])
      | Inr newTargetSize \<Rightarrow>
          if totalAllocated s < newTargetSize then
            let additionalSize = int64 (newTargetSize - totalAllocated s) in
            if 0 < additionalSize then
              if alloc_ok env then
                let allocated = int64 (totalAllocated s + additionalSize) in
                Some (\<lparr>buffers = buffers s @ [additionalSize], totalAllocated = allocated\<rparr>,
                      [MemIncreased additionalSize allocated, MemStats allocated])
              else None
            else Some (s, [MemStats (totalAllocated s)])
          else if newTargetSize < totalAllocated s \<and> 1 < length (buffers s) then
            let excessSize = int64 (totalAllocated s - newTargetSize);
                (bufs, releasedSize, allocated) =
                  release_loop (length (buffers s) - 1) (buffers s) 0 excessSize (totalAllocated s) in
            Some (\<lparr>buffers = bufs, totalAllocated = allocated\<rparr>,
                  (if 0 < releasedSize then [MemDecreased releasedSize allocated] else []) @ [MemStats allocated])
          else Some (s, [MemStats (totalAllocated s)]))"

text \<open>
  The initial allocation: \<open>None\<close> when the allocation is fatal, \<open>Some (Inl err)\<close> when the
  controller logs the error and returns, \<open>Some (Inr s)\<close> when it enters its loop with \<open>s\<close>.
\<close>

definition mem_init :: "f64 \<Rightarrow> mem_env \<Rightarrow> (calc_error + mem_state) option" where
  "mem_init percent env =
     (case calculatePercentageSize_memory percent (mem_sys env) of
        Inl err \<Rightarrow> Some (Inl err)
      | Inr targetSize \<Rightarrow>
          if 0 < targetSize then
            if alloc_ok env then Some (Inr \<lparr>buffers = [targetSize], totalAllocated = targetSize\<rparr>)
            else None
          else Some (Inr \<lparr>buffers = [], totalAllocated = 0\<rparr>))"

text \<open>
  The loop: one entry of the list for every tick the \<^verbatim>\<open>select\<close> takes before it takes
  \<^verbatim>\<open>ctx.Done()\<close>, where all buffers are released.
\<close>

fun mem_loop :: "f64 \<Rightarrow> mem_env list \<Rightarrow> mem_state \<Rightarrow> mem_msg list \<Rightarrow> (mem_state \<times> mem_msg list) option" where
  "mem_loop percent [] s msgs = Some (s\<lparr>buffers := []\<rparr>, msgs @ [MemStopping])"
| "mem_loop percent (env # envs) s msgs =
     (case mem_tick percent env s of
        None \<Rightarrow> None
      | Some (s', out) \<Rightarrow> mem_loop percent envs s' (msgs @ out))"

definition generateDynamicLoad :: "f64 \<Rightarrow> mem_env \<Rightarrow> mem_env list \<Rightarrow> (mem_state \<times> mem_msg list) option" where
  "generateDynamicLoad percent env0 ticks =
     (case mem_init percent env0 of
        None \<Rightarrow> None
      | Some (Inl err) \<Rightarrow> Some (\<lparr>buffers = [], totalAllocated = 0\<rparr>, [MemError err])
      | Some (Inr s) \<Rightarrow>
          mem_loop percent ticks s (if buffers s = [] then [] else [MemInitial (totalAllocated s)]))"

text \<open>The states at the observation points: after the initial allocation and after every tick.\<close>

fun mem_trace :: "f64 \<Rightarrow> mem_env list \<Rightarrow> mem_state \<Rightarrow> mem_state list" where
  "mem_trace percent [] s = [s]"
| "mem_trace percent (env # envs) s =
     s # (case mem_tick percent env s of None \<Rightarrow> [] | Some (s', out) \<Rightarrow> mem_trace percent envs s')"

section \<open>Files of the storage allocator (storage.go)\<close>

text \<open>
  The temporary directory holds numbered files (\<^verbatim>\<open>stress-file-N.dat\<close>,
  \<^verbatim>\<open>dynamic-stress-file-N.dat\<close>); a directory is the map from the numbers of its files
  to their sizes in bytes.  The operating system decides whether an operation fails;
  its answers are inputs.
\<close>

type_synonym dir = "nat \<Rightarrow> int option"

datatype write_result = WriteOk | CreateFailed | WriteFailed int

text \<open>
  The loop of \<^verbatim>\<open>writeFile\<close> when every \<^verbatim>\<open>Write\<close> succeeds: the bytes written in the
  end.  (Integers are unbounded here: the sum \<^verbatim>\<open>written + bufferSize\<close> stays below
  \<open>2 ^ 63\<close> for every size a file can have.)
\<close>

function writeFile_loop :: "int \<Rightarrow> int \<Rightarrow> int" where
  "writeFile_loop written sz =
     (if written < sz then
        let bufferSize = 64 * 1024;
            writeSize = (if sz < written + bufferSize then sz - written else bufferSize) in
        writeFile_loop (written + writeSize) sz
      else written)"
  by pat_completeness auto
termination
  by (relation "measure (\<lambda>(written, sz). nat (sz - written))") (auto simp: Let_def)

text \<open>
  \<^verbatim>\<open>writeFile\<close>: \<^verbatim>\<open>os.Create\<close> fails and leaves the directory alone, or a later step
  fails after \<open>n\<close> bytes, or the file ends up with all its bytes.  The result says
  whether the call returned \<^verbatim>\<open>nil\<close>.
\<close>

definition writeFile :: "write_result \<Rightarrow> nat \<Rightarrow> int \<Rightarrow> dir \<Rightarrow> bool \<times> dir" where
  "writeFile r filePath sz d =
     (case r of
        CreateFailed \<Rightarrow> (False, d)
      | WriteFailed n \<Rightarrow> (False, d(filePath \<mapsto> n))
      | WriteOk \<Rightarrow> (True, d(filePath \<mapsto> writeFile_loop 0 sz)))"

text \<open>
  \<^verbatim>\<open>appendToFile\<close> opens without \<^verbatim>\<open>O_CREATE\<close>, so a missing file stays missing;
  otherwise the file grows by the bytes that reached it, \<open>k\<close> of the \<open>n\<close> requested.
\<close>

definition appendToFile :: "nat \<Rightarrow> nat \<Rightarrow> nat \<Rightarrow> dir \<Rightarrow> dir" where
  "appendToFile k filePath n d =
     (case d filePath of None \<Rightarrow> d | Some sz \<Rightarrow> d(filePath \<mapsto> sz + int (min k n)))"

section \<open>The static storage allocator (storage.go)\<close>

record static_env =
  cancelled_before :: "nat \<Rightarrow> bool"
  static_write :: "nat \<Rightarrow> write_result"
  static_appended :: "nat list"

datatype phase = Completed | Cancelled | Failed

text \<open>The write phase: before each file the context is polled, then the file is written.\<close>

fun write_files :: "static_env \<Rightarrow> nat list \<Rightarrow> int \<Rightarrow> dir \<Rightarrow> phase \<times> dir" where
  "write_files env [] fileSize d = (Completed, d)"
| "write_files env (i # rest) fileSize d =
     (if cancelled_before env i then (Cancelled, d)
      else
        (case writeFile (static_write env i) i fileSize d of
           (False, d') \<Rightarrow> (Failed, d')
         | (True, d') \<Rightarrow> write_files env rest fileSize d'))"

text \<open>The steady loop: one entry for every tick taken before \<^verbatim>\<open>ctx.Done()\<close>.\<close>

fun steady_loop :: "nat list \<Rightarrow> nat \<Rightarrow> dir \<Rightarrow> dir" where
  "steady_loop [] operationCount d = d"
| "steady_loop (k # ks) operationCount d =
     steady_loop ks (Suc operationCount)
       (appendToFile k (operationCount mod 10) (1024 * 1024 div 4) d)"

text \<open>
  \<^verbatim>\<open>performStorageOperations\<close> up to the end of its write phase, and as a whole.  The
  directory it leaves behind is the second component.
\<close>

definition storage_write_phase :: "static_env \<Rightarrow> int \<Rightarrow> dir \<Rightarrow> phase \<times> dir" where
  "storage_write_phase env totalSize d =
     (let chunkSize = 1024 * 1024;
          numFiles = 10;
          fileSize = go_div totalSize numFiles;
          fileSize = (if fileSize < chunkSize then chunkSize else fileSize) in
      write_files env [0..<10] fileSize d)"

definition performStorageOperations :: "static_env \<Rightarrow> int \<Rightarrow> dir \<Rightarrow> phase \<times> dir" where
  "performStorageOperations env totalSize d =
     (case storage_write_phase env totalSize d of
        (Completed, d') \<Rightarrow> (Completed, steady_loop (static_appended env) 0 d')
      | (ph, d') \<Rightarrow> (ph, d'))"

text \<open>The size of a file of the directory (0 when there is no such file), and of a list of files.\<close>

definition file_size :: "dir \<Rightarrow> nat \<Rightarrow> int" where
  "file_size d f = (case d f of None \<Rightarrow> 0 | Some n \<Rightarrow> n)"

definition held_bytes :: "dir \<Rightarrow> nat list \<Rightarrow> int" where
  "held_bytes d fs = sum_list (map (file_size d) fs)"

section \<open>The dynamic storage controller (storage.go)\<close>

record sto_state =
  currentFiles :: "nat list"
  totalWritten :: int
  fileCounter :: nat
  disk :: dir

record sto_env =
  free_space :: "calc_error + int"
  write_res :: write_result
  stat_ok :: "nat \<Rightarrow> bool"
  remove_ok :: "nat \<Rightarrow> bool"
  unix_now :: nat
  appended :: nat

datatype sto_msg =
    StoInitial int
  | StoRecalcError calc_error
  | StoWriteError
  | StoIncreased int int
  | StoDecreased int int
  | StoIO nat

text \<open>\<^verbatim>\<open>os.Stat\<close>: the size of the file, unless the file is missing or the call fails.\<close>

definition os_Stat :: "sto_env \<Rightarrow> dir \<Rightarrow> nat \<Rightarrow> int option" where
  "os_Stat env d filePath = (if stat_ok env filePath then d filePath else None)"

text \<open>
  The delete loop
  \<^verbatim>\<open>for i := len(currentFiles) - 1; i > 0 && deletedSize < excessSize; i--\<close>.
\<close>

fun delete_loop :: "sto_env \<Rightarrow> nat \<Rightarrow> sto_state \<Rightarrow> int \<Rightarrow> int \<Rightarrow> sto_state \<times> int" where
  "delete_loop env 0 s deletedSize excessSize = (s, deletedSize)"
| "delete_loop env (Suc j) s deletedSize excessSize =
     (if deletedSize < excessSize then
        let filePath = currentFiles s ! Suc j in
        (case os_Stat env (disk s) filePath of
           None \<Rightarrow> delete_loop env j s deletedSize excessSize
         | Some fileSize \<Rightarrow>
             if remove_ok env filePath then
               delete_loop env j
                 (s\<lparr>disk := (disk s)(filePath := None),
                    totalWritten := int64 (totalWritten s - fileSize),
                    currentFiles := take (Suc j) (currentFiles s)\<rparr>)
                 (int64 (deletedSize + fileSize)) excessSize
             else delete_loop env j s deletedSize excessSize)
      else (s, deletedSize))"

text \<open>The I/O step at the end of a tick: one read, then an append of 1024 bytes.\<close>

definition sto_io :: "sto_env \<Rightarrow> sto_state \<Rightarrow> sto_msg list \<Rightarrow> sto_state \<times> sto_msg list" where
  "sto_io env s msgs =
     (if 0 < length (currentFiles s) then
        let fileIndex = unix_now env mod length (currentFiles s);
            filePath = currentFiles s ! fileIndex in
        (s\<lparr>disk := appendToFile (appended env) filePath 1024 (disk s)\<rparr>,
         msgs @ [StoIO (length (currentFiles s))])
      else (s, msgs))"

definition sto_tick :: "f64 \<Rightarrow> sto_env \<Rightarrow> sto_state \<Rightarrow> sto_state \<times> sto_msg list" where
  "sto_tick percent env s =
     (case calculatePercentageSize_storage percent (free_space env) of
        Inl err \<Rightarrow> (s, [StoRecalcError err])
      | Inr newTargetSize \<Rightarrow>
          if totalWritten s < newTargetSize then
            let additionalSize = int64 (newTargetSize - totalWritten s) in
            if 0 < additionalSize then
              (case writeFile (write_res env) (fileCounter s) additionalSize (disk s) of
                 (False, d') \<Rightarrow> (s\<lparr>disk := d'\<rparr>, [StoWriteError])
               | (True, d') \<Rightarrow>
                   let written = int64 (totalWritten s + additionalSize) in
                   sto_io env
                     (s\<lparr>disk := d',
                        currentFiles := currentFiles s @ [fileCounter s],
                        totalWritten := written,
                        fileCounter := Suc (fileCounter s)\<rparr>)
                     [StoIncreased additionalSize written])
            else sto_io env s []
          else if newTargetSize < totalWritten s \<and> 1 < length (currentFiles s) then
            let excessSize = int64 (totalWritten s - newTargetSize);
                (s', deletedSize) = delete_loop env (length (currentFiles s) - 1) s 0 excessSize in
            sto_io env s' (if 0 < deletedSize then [StoDecreased deletedSize (totalWritten s')] else [])
          else sto_io env s [])"

text \<open>
  The initial file: \<open>Inl\<close> when \<^verbatim>\<open>performDynamicStorageOperations\<close> returns an error
  at once (the second component is the directory it leaves), \<open>Inr s\<close> when it enters its
  loop with \<open>s\<close>.
\<close>

datatype sto_error = CalcError calc_error | InitialWriteError

definition sto_init :: "f64 \<Rightarrow> sto_env \<Rightarrow> dir \<Rightarrow> (sto_error \<times> dir) + sto_state" where
  "sto_init percent env d =
     (case calculatePercentageSize_storage percent (free_space env) of
        Inl err \<Rightarrow> Inl (CalcError err, d)
      | Inr targetSize \<Rightarrow>
          if 0 < targetSize then
            (case writeFile (write_res env) 0 targetSize d of
               (False, d') \<Rightarrow> Inl (InitialWriteError, d')
             | (True, d') \<Rightarrow>
                 Inr \<lparr>currentFiles = [0], totalWritten = targetSize, fileCounter = 1, disk = d'\<rparr>)
          else Inr \<lparr>currentFiles = [], totalWritten = 0, fileCounter = 0, disk = d\<rparr>)"

fun sto_loop :: "f64 \<Rightarrow> sto_env list \<Rightarrow> sto_state \<Rightarrow> sto_msg list \<Rightarrow> sto_state \<times> sto_msg list" where
  "sto_loop percent [] s msgs = (s, msgs)"
| "sto_loop percent (env # envs) s msgs =
     (case sto_tick percent env s of (s', out) \<Rightarrow> sto_loop percent envs s' (msgs @ out))"

text \<open>
  \<^verbatim>\<open>performDynamicStorageOperations\<close>: the error it returns, if any, what it printed, and
  the directory it leaves behind.
\<close>

definition performDynamicStorageOperations ::
    "f64 \<Rightarrow> sto_env \<Rightarrow> sto_env list \<Rightarrow> dir \<Rightarrow> sto_error option \<times> sto_msg list \<times> dir" where
  "performDynamicStorageOperations percent env0 ticks d =
     (case sto_init percent env0 d of
        Inl (err, d') \<Rightarrow> (Some err, [], d')
      | Inr s \<Rightarrow>
          (case sto_loop percent ticks s
                  (if currentFiles s = [] then [] else [StoInitial (totalWritten s)]) of
             (s', msgs) \<Rightarrow> (None, msgs, disk s')))"

fun sto_trace :: "f64 \<Rightarrow> sto_env list \<Rightarrow> sto_state \<Rightarrow> sto_state list" where
  "sto_trace percent [] s = [s]"
| "sto_trace percent (env # envs) s = s # sto_trace percent envs (fst (sto_tick percent env s))"

text \<open>
  \<^verbatim>\<open>GenerateLoad\<close> of storage.go.  The result is the temporary directory when the
  function has returned: \<open>None\<close> when it does not exist, its files otherwise.  The
  deferred \<^verbatim>\<open>os.RemoveAll\<close> runs on every return after the directory was created; its
  own error is ignored.
\<close>

record storage_run =
  mkdir_ok :: bool
  removeall_ok :: bool
  dyn_init :: sto_env
  dyn_ticks :: "sto_env list"
  stat_env :: static_env

definition RemoveAll :: "bool \<Rightarrow> dir \<Rightarrow> dir option" where
  "RemoveAll ok d = (if ok then None else Some d)"

definition GenerateLoad_storage :: "storage_run \<Rightarrow> int \<Rightarrow> dir option" where
  "GenerateLoad_storage run sz =
     (if \<not> mkdir_ok run then None
      else
        let tempDir = Map.empty in
        RemoveAll (removeall_ok run)
          (if sz < 0
           then snd (snd (performDynamicStorageOperations
                  (float64_of_int64 (int64 (- sz))) (dyn_init run) (dyn_ticks run) tempDir))
           else snd (performStorageOperations (stat_env run) sz tempDir)))"

declare TrimLeftSpace.simps [simp del] TrimRightSpace.simps [simp del] bitlen.simps [simp del]
  writeFile_loop.simps [simp del]


section \<open>Predicates on controller states\<close>

text \<open>
  The state of the memory controller is consistent: it holds at least one buffer, every
  buffer has a positive length, the total is the sum of the lengths, and the total is an
  \<^verbatim>\<open>int64\<close>.
\<close>

definition mem_inv :: "mem_state \<Rightarrow> bool" where
  "mem_inv s \<longleftrightarrow>
     buffers s \<noteq> [] \<and> list_all (\<lambda>b. 0 < b) (buffers s) \<and>
     totalAllocated s = sum_list (buffers s) \<and> totalAllocated s < 2 ^ 63"

fun mem_grows :: "mem_msg \<Rightarrow> bool" where
  "mem_grows (MemIncreased a t) = True"
| "mem_grows m = False"

fun mem_shrinks :: "mem_msg \<Rightarrow> bool" where
  "mem_shrinks (MemDecreased r t) = True"
| "mem_shrinks m = False"

fun sto_grows :: "sto_msg \<Rightarrow> bool" where
  "sto_grows (StoIncreased a t) = True"
| "sto_grows m = False"

fun sto_shrinks :: "sto_msg \<Rightarrow> bool" where
  "sto_shrinks (StoDecreased r t) = True"
| "sto_shrinks m = False"

text \<open>
  The state of the storage controller is consistent: it holds at least one file, the
  held files are different files with numbers below the counter, each of them is in
  the directory, and the sums the controller computes with them are \<^verbatim>\<open>int64\<close> values.
\<close>

definition present_in :: "dir \<Rightarrow> nat list \<Rightarrow> bool" where
  "present_in d fs \<longleftrightarrow> list_all (\<lambda>f. case d f of None \<Rightarrow> False | Some n \<Rightarrow> 0 \<le> n) fs"

definition sto_present :: "sto_state \<Rightarrow> bool" where
  "sto_present s \<longleftrightarrow>
     list_all (\<lambda>f. case disk s f of None \<Rightarrow> False | Some n \<Rightarrow> 0 \<le> n) (currentFiles s)"

definition sto_wf :: "sto_state \<Rightarrow> bool" where
  "sto_wf s \<longleftrightarrow>
     currentFiles s \<noteq> [] \<and> distinct (currentFiles s) \<and>
     list_all (\<lambda>f. f < fileCounter s) (currentFiles s) \<and> sto_present s \<and>
     totalWritten s < 2 ^ 63 \<and>
     held_bytes (disk s) (currentFiles s) < 2 ^ 63 \<and>
     - (2 ^ 63) \<le> totalWritten s - held_bytes (disk s) (currentFiles s)"

text \<open>No operation of the tick on the held files, and no write, fails.\<close>

definition io_ok :: "sto_env \<Rightarrow> sto_state \<Rightarrow> bool" where
  "io_ok env s \<longleftrightarrow>
     write_res env = WriteOk \<and>
     list_all (\<lambda>f. stat_ok env f \<and> remove_ok env f) (currentFiles s)"

text \<open>By how much the held files exceed, on disk, the total the controller tracks.\<close>

definition sto_drift :: "sto_state \<Rightarrow> int" where
  "sto_drift s = held_bytes (disk s) (currentFiles s) - totalWritten s"

text \<open>
  What a shrinking tick does to the held segments \<open>segs\<close> (with sizes \<open>sz\<close>, tracked
  total \<open>held\<close>): the segments kept are the first \<open>k\<close>, at least one and fewer than
  before; the tracked total goes down by the sizes freed; the loop has stopped because
  the sizes freed reach \<open>held - target\<close> or because only segment 0 is left, and it had
  not reached \<open>held - target\<close> before it freed the last segment it freed.
\<close>

definition tail_shrink :: "'a list \<Rightarrow> ('a \<Rightarrow> int) \<Rightarrow> int \<Rightarrow> int \<Rightarrow> 'a list \<Rightarrow> int \<Rightarrow> bool" where
  "tail_shrink segs sz held target segs' held' \<longleftrightarrow>
     (let k = length segs'; freed = sum_list (map sz (drop k segs)) in
      1 \<le> k \<and> k < length segs \<and> segs' = take k segs \<and> held' = held - freed \<and>
      (held - target \<le> freed \<or> k = 1) \<and> freed - sz (segs ! k) < held - target)"


section \<open>Rounding is exact on representable values\<close>

lemma bitlen_0: "bitlen 0 = 0"
  by (simp add: bitlen.simps)

lemma bitlen_pos: "0 < n \<Longrightarrow> bitlen n = Suc (bitlen (n div 2))"
  by (subst bitlen.simps) simp

lemma bitlen_mult_pow2: "0 < n \<Longrightarrow> bitlen (n * 2 ^ k) = bitlen n + k"
proof (induction k)
  case 0
  then show ?case by simp
next
  case (Suc k)
  have "bitlen (n * 2 ^ Suc k) = Suc (bitlen ((n * 2 ^ Suc k) div 2))"
    using Suc.prems by (intro bitlen_pos) simp
  also have "(n * 2 ^ Suc k) div 2 = n * 2 ^ k" by simp
  finally show ?case using Suc by simp
qed

lemma bitlen_pow2: "bitlen (2 ^ k) = Suc k"
proof -
  have "bitlen 1 = 1" using bitlen_pos [of 1] by (simp add: bitlen_0)
  then show ?thesis using bitlen_mult_pow2 [of 1 k] by simp
qed

lemma bitlen_less: "n < 2 ^ k \<Longrightarrow> bitlen n \<le> k"
proof (induction k arbitrary: n)
  case 0
  then show ?case by (simp add: bitlen_0)
next
  case (Suc k)
  show ?case
  proof (cases "n = 0")
    case True
    then show ?thesis by (simp add: bitlen_0)
  next
    case False
    from Suc.prems have "n div 2 < 2 ^ k" by simp
    then have "bitlen (n div 2) \<le> k" by (rule Suc.IH)
    then show ?thesis using False by (simp add: bitlen_pos)
  qed
qed

lemma floor_log2_le: "floor_log2 a b \<le> int (bitlen a) - int (bitlen b)"
  by (simp add: floor_log2_def Let_def)

lemma round_half_even_exact: "0 < den \<Longrightarrow> round_half_even (q * den) den = q"
  by (simp add: round_half_even_def)

lemma nearest_f64_pow2:
  assumes N: "0 < N" "N < 2 ^ 53" and E: "- 1074 \<le> int s - int t"
  shows "\<exists>k. nearest_f64 (N * 2 ^ s) (2 ^ t) = (N * 2 ^ k, int s - int t - int k)"
proof -
  define p where "p = max (floor_log2 (N * 2 ^ s) (2 ^ t)) (- 1022) - 52"
  have "bitlen N \<le> 53" using N(2) by (rule bitlen_less)
  then have "floor_log2 (N * 2 ^ s) (2 ^ t) \<le> 52 + (int s - int t)"
    using floor_log2_le [of "N * 2 ^ s" "2 ^ t"] N(1)
    by (simp add: bitlen_mult_pow2 bitlen_pow2)
  then have pE: "p \<le> int s - int t" using E by (simp add: p_def)
  have nz: "N * 2 ^ s \<noteq> 0" using N(1) by simp
  show ?thesis
  proof (cases "0 \<le> p")
    case True
    define k where "k = s - t - nat p"
    have s: "s = k + (t + nat p)" using True pE by (simp add: k_def)
    have eq: "N * 2 ^ s = (N * 2 ^ k) * (2 ^ t * 2 ^ nat p)"
      by (subst s) (simp add: power_add)
    have "round_half_even ((N * 2 ^ k) * (2 ^ t * 2 ^ nat p)) (2 ^ t * 2 ^ nat p) = N * 2 ^ k"
      by (rule round_half_even_exact) simp
    then have "round_half_even (N * 2 ^ s) (2 ^ t * 2 ^ nat p) = N * 2 ^ k"
      by (simp only: eq)
    moreover have "p = int s - int t - int k" using True pE by (simp add: k_def)
    ultimately show ?thesis using nz True
      unfolding nearest_f64_def Let_def p_def [symmetric] by auto
  next
    case False
    define k where "k = s + nat (- p) - t"
    have s: "s + nat (- p) = k + t" using False pE by (simp add: k_def)
    have "N * 2 ^ s * 2 ^ nat (- p) = N * 2 ^ (s + nat (- p))" by (simp add: power_add)
    also have "\<dots> = (N * 2 ^ k) * 2 ^ t" by (subst s) (simp add: power_add)
    finally have eq: "N * 2 ^ s * 2 ^ nat (- p) = (N * 2 ^ k) * 2 ^ t" .
    have "round_half_even ((N * 2 ^ k) * 2 ^ t) (2 ^ t) = N * 2 ^ k"
      by (rule round_half_even_exact) simp
    then have "round_half_even (N * 2 ^ s * 2 ^ nat (- p)) (2 ^ t) = N * 2 ^ k"
      by (simp only: eq)
    moreover have "p = int s - int t - int k" using False pE by (simp add: k_def)
    ultimately show ?thesis using nz False
      unfolding nearest_f64_def Let_def p_def [symmetric] by auto
  qed
qed


lemma f64_of_ratio_pow2:
  assumes N: "N < 2 ^ 53" and E: "N = 0 \<or> - 1074 \<le> int s - int t" "N = 0 \<or> int s - int t \<le> 970"
  shows "\<exists>m e. f64_of_ratio neg (N * 2 ^ s) (2 ^ t) = Fin m e \<and>
           real_of_int m * 2 powi e = (if neg then - 1 else 1) * real N * 2 powi (int s - int t)"
proof (cases "N = 0")
  case True
  then show ?thesis by (simp add: f64_of_ratio_def nearest_f64_def)
next
  case False
  with E have E': "- 1074 \<le> int s - int t" "int s - int t \<le> 970" by simp_all
  from False obtain k where k: "nearest_f64 (N * 2 ^ s) (2 ^ t) = (N * 2 ^ k, int s - int t - int k)"
    using nearest_f64_pow2 [OF _ N E'(1)] by auto
  have "(2::real) powi (int s - int t) = 2 powi (int k + (int s - int t - int k))" by simp
  also have "\<dots> = 2 powi int k * 2 powi (int s - int t - int k)"
    by (rule power_int_add) simp
  finally have pw: "(2::real) powi (int s - int t) = 2 ^ k * 2 powi (int s - int t - int k)"
    by simp
  have "\<not> (971 < int s - int t - int k \<or> (int s - int t - int k = 971 \<and> 2 ^ 53 \<le> N * 2 ^ k))"
    using E'(2) by simp
  then have "f64_of_ratio neg (N * 2 ^ s) (2 ^ t) =
      Fin (if neg then - int (N * 2 ^ k) else int (N * 2 ^ k)) (int s - int t - int k)"
    unfolding f64_of_ratio_def k by (simp only: prod.case Let_def if_False)
  then show ?thesis by (auto simp: pw)
qed

lemma float64_of_int64_exact:
  assumes "\<bar>n\<bar> < 2 ^ 53"
  shows "\<exists>m e. float64_of_int64 n = Fin m e \<and> real_of_int m * 2 powi e = of_int n"
proof -
  have "nat \<bar>n\<bar> < 2 ^ 53" using assms by (simp add: nat_less_iff)
  from f64_of_ratio_pow2 [OF this, of 0 0 "n < 0"]
  show ?thesis by (auto simp: float64_of_int64_def split: if_splits)
qed

lemma trunc_f64_real: "trunc_f64 m e = trunc_real (of_int m * 2 powi e)"
proof (cases "0 \<le> e")
  case True
  then have "(of_int m :: real) * 2 powi e = of_int (m * 2 ^ nat e)"
    by (simp add: power_int_def)
  then show ?thesis using True
    by (simp add: trunc_f64_def trunc_real_def del: of_int_mult of_int_power)
next
  case False
  define n where "n = nat (- e)"
  have pw: "(of_int m :: real) * 2 powi e = of_int m / of_int (2 ^ n)"
    using False by (simp add: power_int_def n_def field_simps)
  show ?thesis
  proof (cases "0 \<le> m")
    case True
    then have "0 \<le> (of_int m :: real) / of_int (2 ^ n)" by simp
    then show ?thesis using False True unfolding pw trunc_real_def trunc_f64_def
      by (simp only: floor_divide_of_int_eq n_def if_True if_False)
  next
    case m: False
    then have neg: "\<not> 0 \<le> (of_int m :: real) / of_int (2 ^ n)"
      by (simp add: field_simps)
    have "\<lceil>(of_int m :: real) / of_int (2 ^ n)\<rceil> = - \<lfloor>of_int (- m) / (of_int (2 ^ n) :: real)\<rfloor>"
      by (simp add: ceiling_def)
    also have "\<dots> = - ((- m) div 2 ^ n)"
      by (simp only: floor_divide_of_int_eq)
    finally show ?thesis using False m neg unfolding pw trunc_real_def trunc_f64_def
      by (simp add: n_def)
  qed
qed

lemma int64_of_f64_Fin:
  "is_int64 (trunc_real (f64_real (Fin m e))) \<Longrightarrow> int64_of_f64 (Fin m e) = trunc_real (f64_real (Fin m e))"
  by (simp add: trunc_f64_real)

lemma shift_exponent:
  assumes "e \<le> e1"
  shows "(of_int m :: real) * 2 powi e1 = of_int (m * 2 ^ nat (e1 - e)) * 2 powi e"
proof -
  have "(2::real) powi e1 = 2 powi ((e1 - e) + e)" by simp
  also have "\<dots> = 2 powi (e1 - e) * 2 powi e"
    by (rule power_int_add) simp
  also have "(2::real) powi (e1 - e) = 2 ^ nat (e1 - e)"
    using assms by (simp add: power_int_def)
  finally show ?thesis by simp
qed

lemma f64_lt_Fin: "f64_lt (Fin m1 e1) (Fin m2 e2) \<longleftrightarrow> f64_real (Fin m1 e1) < f64_real (Fin m2 e2)"
proof -
  define e where "e = min e1 e2"
  have pos: "0 < (2::real) powi e" by (simp add: zero_less_power_int)
  have le1: "e \<le> e1" and le2: "e \<le> e2" by (simp_all add: e_def)
  have "f64_real (Fin m1 e1) < f64_real (Fin m2 e2) \<longleftrightarrow>
        real_of_int (m1 * 2 ^ nat (e1 - e)) * 2 powi e < real_of_int (m2 * 2 ^ nat (e2 - e)) * 2 powi e"
    by (simp only: f64_real.simps shift_exponent [OF le1, of m1] shift_exponent [OF le2, of m2])
  also have "\<dots> \<longleftrightarrow> real_of_int (m1 * 2 ^ nat (e1 - e)) < real_of_int (m2 * 2 ^ nat (e2 - e))"
    using pos by (simp only: mult_less_cancel_right_pos)
  also have "\<dots> \<longleftrightarrow> m1 * 2 ^ nat (e1 - e) < m2 * 2 ^ nat (e2 - e)"
    by (simp only: of_int_less_iff)
  finally show ?thesis by (simp add: e_def Let_def)
qed

lemma int64_id: "is_int64 x \<Longrightarrow> int64 x = x"
  by (simp add: is_int64_def int64_def)

lemmas f64_eval = f64_of_ratio_def nearest_f64_def floor_log2_def round_half_even_def
  float64_of_int64_def bitlen.simps trunc_f64_def is_int64_def int64_def Let_def
lemmas str_eval = TrimSpace_def TrimLeftSpace.simps TrimRightSpace.simps leading_space_def
  trailing_space_def space_runes_def HasPrefix_def HasSuffix_def TrimSuffix_def ToUpper_def
  ToUpper_char_def
lemmas parse_eval = parseSize_def FindStringSubmatch_def number_re_def is_digit_def
  is_re_space_def unit_re_def unit_multiplier_def ParseFloat_decimal_def float_of_ratio_def
  decimal_value_def digit_value_def

lemma float64_of_int64_0: "float64_of_int64 0 = Fin 0 0"
  by (simp add: f64_eval)

lemma float64_of_int64_100: "float64_of_int64 100 = Fin 7036874417766400 (- 46)"
  by (simp add: f64_eval)

lemma f64_lt_zero: "f64_lt (Fin m e) (float64_of_int64 0) \<longleftrightarrow> f64_real (Fin m e) < 0"
  by (simp only: float64_of_int64_0 f64_lt_Fin) simp

lemma f64_lt_hundred: "f64_lt (float64_of_int64 100) (Fin m e) \<longleftrightarrow> 100 < f64_real (Fin m e)"
  by (simp only: float64_of_int64_100 f64_lt_Fin) (simp add: power_int_def power_one_over)

lemma unit_re_multiplier: "unit_re u \<Longrightarrow> unit_multiplier u = Some (1024 ^ spec_unit_index u)"
  unfolding unit_re_def by (auto simp: unit_multiplier_def spec_unit_index_def)

lemma FindStringSubmatch_unit: "FindStringSubmatch s = Some (n, u) \<Longrightarrow> unit_re u"
  by (auto simp: FindStringSubmatch_def Let_def split: option.splits if_splits)

lemma parseSize_percent_eq:
  assumes "HasSuffix (TrimSpace s) ''%''"
  shows "parseSize pf s =
     (case pf (TrimSuffix (TrimSpace s) ''%'') of
        Inl err \<Rightarrow> Inl (InvalidPercentage (TrimSuffix (TrimSpace s) ''%''))
      | Inr percent \<Rightarrow>
          if f64_lt percent (float64_of_int64 0) \<or> f64_lt (float64_of_int64 100) percent
          then Inl (PercentageOutOfRange percent)
          else Inr (int64_of_f64 (f64_neg percent)))"
  using assms by (simp add: parseSize_def Let_def)

lemma parseSize_absolute_eq:
  assumes "\<not> HasSuffix (TrimSpace s) ''%''"
  shows "parseSize pf s =
     (case FindStringSubmatch (ToUpper (TrimSpace s)) of
        None \<Rightarrow> Inl (InvalidSizeFormat (TrimSpace s))
      | Some (number, unit) \<Rightarrow>
          (case pf number of
             Inl err \<Rightarrow> Inl (FloatError err)
           | Inr val \<Rightarrow>
               (case unit_multiplier unit of
                  None \<Rightarrow> Inl (UnsupportedUnit unit)
                | Some multiplier \<Rightarrow>
                    Inr (int64_of_f64 (f64_mul val (float64_of_int64 multiplier))))))"
  using assms by (simp add: parseSize_def Let_def)

section \<open>The size parser: absolute sizes\<close>

lemma float64_of_int64_pow2:
  assumes "c \<le> 62"
  shows "\<exists>k. float64_of_int64 (2 ^ c) = Fin (2 ^ k) (int c - int k)"
proof -
  obtain k where k: "nearest_f64 (1 * 2 ^ c) (2 ^ 0) = (1 * 2 ^ k, int c - int 0 - int k)"
    using nearest_f64_pow2 [of 1 c 0] by auto
  have n: "nat \<bar>2 ^ c :: int\<bar> = 2 ^ c" by (simp add: nat_power_eq)
  have "\<not> (971 < int c - int k \<or> (int c - int k = 971 \<and> (2::nat) ^ 53 \<le> 2 ^ k))"
    using assms by simp
  then show ?thesis using k
    unfolding float64_of_int64_def f64_of_ratio_def n by (auto simp: Let_def)
qed

lemma f64_mul_pow2_exact:
  assumes m: "\<bar>m\<bar> < 2 ^ 53" and e: "m = 0 \<or> (- 1074 \<le> e \<and> e + int c \<le> 970)" and c: "c \<le> 62"
  shows "\<exists>m' e'. f64_mul (Fin m e) (float64_of_int64 (2 ^ c)) = Fin m' e' \<and>
           real_of_int m' * 2 powi e' = real_of_int m * 2 powi e * 2 ^ c"
proof -
  obtain k where k: "float64_of_int64 (2 ^ c) = Fin (2 ^ k) (int c - int k)"
    using float64_of_int64_pow2 [OF c] by auto
  define ee where "ee = e + (int c - int k)"
  have N: "nat \<bar>m\<bar> < 2 ^ 53" using m by (simp add: nat_less_iff)
  have abs: "nat \<bar>m * 2 ^ k\<bar> * 2 ^ nat ee = nat \<bar>m\<bar> * 2 ^ (k + nat ee)"
    by (simp add: abs_mult nat_mult_distrib nat_power_eq power_add)
  have st: "int (k + nat ee) - int (nat (- ee)) = e + int c"
    by (simp add: ee_def)
  have E1: "nat \<bar>m\<bar> = 0 \<or> - 1074 \<le> int (k + nat ee) - int (nat (- ee))"
    and E2: "nat \<bar>m\<bar> = 0 \<or> int (k + nat ee) - int (nat (- ee)) \<le> 970"
    using e unfolding st by auto
  from f64_of_ratio_pow2 [OF N E1 E2, of "m * 2 ^ k < 0"]
  obtain m' e' where r: "f64_of_ratio (m * 2 ^ k < 0) (nat \<bar>m\<bar> * 2 ^ (k + nat ee)) (2 ^ nat (- ee)) = Fin m' e'"
    and v: "real_of_int m' * 2 powi e' =
       (if m * 2 ^ k < 0 then - 1 else 1) * real (nat \<bar>m\<bar>) * 2 powi (e + int c)"
    unfolding st by blast
  have sg: "(if m * 2 ^ k < 0 then - 1 else 1) * real (nat \<bar>m\<bar>) = real_of_int m"
    by (simp add: mult_less_0_iff)
  have pw: "(2::real) powi (e + int c) = 2 powi e * 2 ^ c"
    by (simp add: power_int_add)
  have "f64_mul (Fin m e) (float64_of_int64 (2 ^ c)) = Fin m' e'"
    unfolding k by (simp add: Let_def ee_def [symmetric] abs r)
  moreover have "real_of_int m' * 2 powi e' = real_of_int m * 2 powi e * 2 ^ c"
    using v sg pw by (metis mult.assoc)
  ultimately show ?thesis by blast
qed

lemma powi_bound:
  assumes "(2::real) powi x < 2 ^ n"
  shows "x < int n"
proof (rule ccontr)
  assume "\<not> x < int n"
  then have "(2::real) powi int n \<le> 2 powi x"
    by (intro power_int_increasing) simp_all
  with assms show False by simp
qed

text \<open>
  C7 (as amended).  For every absolute size string the pattern accepts, with number \<open>n\<close>
  (the \<^verbatim>\<open>float64\<close> that \<^verbatim>\<open>ParseFloat\<close> returns for the digits) and unit \<open>u\<close>, the
  parser returns \<open>n * 1024 ^ unitIndex\<close> truncated toward zero, not rounded, as long as
  this is below \<open>2 ^ 63\<close>.
\<close>

theorem parseSize_truncates:
  assumes "\<not> HasSuffix (TrimSpace s) ''%''"
    and "FindStringSubmatch (ToUpper (TrimSpace s)) = Some (number, unit)"
    and "pf number = Inr (Fin m e)"
    and "0 \<le> m" and "m < 2 ^ 53" and "- 1074 \<le> e"
    and "f64_real (Fin m e) * 1024 ^ spec_unit_index unit < 2 ^ 63"
  shows "parseSize pf s = Inr \<lfloor>f64_real (Fin m e) * 1024 ^ spec_unit_index unit\<rfloor>"
proof -
  define c where "c = 10 * spec_unit_index unit"
  have c: "c \<le> 62" by (simp add: c_def spec_unit_index_def)
  have pc: "(1024::int) ^ spec_unit_index unit = 2 ^ c"
    and pcr: "(1024::real) ^ spec_unit_index unit = 2 ^ c"
    by (simp_all add: c_def power_mult)
  from assms(2) have "unit_re unit" by (rule FindStringSubmatch_unit)
  then have mult: "unit_multiplier unit = Some (2 ^ c)"
    using unit_re_multiplier [of unit] by (simp only: pc)
  have bound: "m = 0 \<or> (- 1074 \<le> e \<and> e + int c \<le> 970)"
  proof (cases "m = 0")
    case False
    with assms(4) have "1 \<le> real_of_int m" by simp
    then have "(2::real) powi (e + int c) \<le> real_of_int m * 2 powi (e + int c)"
      by (simp add: zero_less_power_int)
    also have "\<dots> = f64_real (Fin m e) * 1024 ^ spec_unit_index unit"
      by (simp add: pcr power_int_add)
    also have "\<dots> < 2 ^ 63" by (rule assms(7))
    finally have "e + int c < int 63" by (rule powi_bound)
    then show ?thesis using assms(6) by simp
  qed simp
  obtain m' e' where prod: "f64_mul (Fin m e) (float64_of_int64 (2 ^ c)) = Fin m' e'"
    and val: "real_of_int m' * 2 powi e' = real_of_int m * 2 powi e * 2 ^ c"
    using f64_mul_pow2_exact [OF _ bound c] assms(4,5) by auto
  define X where "X = f64_real (Fin m e) * 1024 ^ spec_unit_index unit"
  have val': "f64_real (Fin m' e') = X"
    using val by (simp add: pcr X_def)
  have nonneg: "0 \<le> X"
    using assms(4) by (simp add: zero_le_mult_iff X_def)
  have tr: "trunc_real (f64_real (Fin m' e')) = \<lfloor>X\<rfloor>"
    unfolding trunc_real_def val' using nonneg by (simp only: if_True)
  have "\<lfloor>X\<rfloor> < 2 ^ 63"
    using assms(7) unfolding X_def [symmetric] by (simp add: floor_less_iff)
  moreover have "0 \<le> \<lfloor>X\<rfloor>"
    using nonneg by simp
  ultimately have "is_int64 \<lfloor>X\<rfloor>"
    by (simp add: is_int64_def)
  then have "int64_of_f64 (Fin m' e') = \<lfloor>X\<rfloor>"
    using int64_of_f64_Fin [of m' e'] by (simp only: tr)
  then have "parseSize pf s = Inr \<lfloor>X\<rfloor>"
    using assms(2,3) mult prod by (simp add: parseSize_absolute_eq [OF assms(1)])
  then show ?thesis by (simp only: X_def)
qed

lemma eval_1GB:
  "\<not> HasSuffix (TrimSpace ''1GB'') ''%''"
  "FindStringSubmatch (ToUpper (TrimSpace ''1GB'')) = Some (''1'', ''GB'')"
  "ParseFloat_decimal ''1'' = Inr (Fin 4503599627370496 (- 52))"
  by (simp_all add: str_eval parse_eval f64_eval)

theorem parseSize_truncates_witness:
  "parseSize ParseFloat_decimal ''1GB'' = Inr 1073741824"
  using parseSize_truncates [of "''1GB''" "''1''" "''GB''" ParseFloat_decimal 4503599627370496 "- 52"] eval_1GB
  by (simp add: spec_unit_index_def power_int_def power_one_over)

theorem parseSize_rounds_counterexample:
  "parseSize ParseFloat_decimal ''1.5B'' = Inr 1 \<and>
   round (3 / 2 * 1024 ^ spec_unit_index ''B'' :: real) = 2"
  by (simp add: str_eval parse_eval f64_eval spec_unit_index_def round_def)

lemma parseSize_500MB: "parseSize ParseFloat_decimal ''500MB'' = Inr 524288000"
  by (simp add: str_eval parse_eval f64_eval)

section \<open>The size parser: percentages and malformed input\<close>

lemma trunc_real_minus: "trunc_real (- x) = - trunc_real x"
  by (auto simp: trunc_real_def ceiling_def)

lemma int64_of_f64_neg_percent:
  assumes "0 \<le> f64_real (Fin m e)" "f64_real (Fin m e) \<le> 100"
  shows "int64_of_f64 (f64_neg (Fin m e)) = - \<lfloor>f64_real (Fin m e)\<rfloor>"
proof -
  define v where "v = f64_real (Fin m e)"
  have neg: "f64_real (Fin (- m) e) = - v" by (simp add: v_def)
  define f where "f = \<lfloor>v\<rfloor>"
  have tr: "trunc_real (f64_real (Fin (- m) e)) = - f"
    unfolding neg trunc_real_minus using assms(1) by (simp add: trunc_real_def v_def f_def)
  have "0 \<le> f" "f \<le> 100"
    using assms by (simp_all add: v_def f_def floor_le_iff)
  then have "is_int64 (- f)" by (simp add: is_int64_def)
  then have "int64_of_f64 (Fin (- m) e) = - f"
    using int64_of_f64_Fin [of "- m" e] by (simp only: tr)
  then show ?thesis by (simp add: v_def f_def)
qed

lemma GenerateLoad_mode_percent:
  assumes "0 \<le> k" "k \<le> 100"
  shows "GenerateLoad_mode (- k) = (if k = 0 then Static 0 else Dynamic (of_int k))"
proof (cases "k = 0")
  case True
  then show ?thesis by (simp add: GenerateLoad_mode_def)
next
  case False
  have i: "int64 k = k" using assms by (intro int64_id) (simp add: is_int64_def)
  have "\<bar>k\<bar> < 2 ^ 53" using assms by simp
  then obtain m e where "float64_of_int64 k = Fin m e" "real_of_int m * 2 powi e = of_int k"
    using float64_of_int64_exact by blast
  then show ?thesis using False assms(1) by (simp add: GenerateLoad_mode_def i)
qed

lemma parseSize_percent_cases:
  assumes "HasSuffix (TrimSpace s) ''%''"
  shows "parseSize pf s =
     (case pf (TrimSuffix (TrimSpace s) ''%'') of
        Inl err \<Rightarrow> Inl (InvalidPercentage (TrimSuffix (TrimSpace s) ''%''))
      | Inr (Fin m e) \<Rightarrow>
          if f64_real (Fin m e) < 0 \<or> 100 < f64_real (Fin m e)
          then Inl (PercentageOutOfRange (Fin m e))
          else Inr (- \<lfloor>f64_real (Fin m e)\<rfloor>)
      | Inr PInf \<Rightarrow> Inl (PercentageOutOfRange PInf)
      | Inr NInf \<Rightarrow> Inl (PercentageOutOfRange NInf)
      | Inr NaN \<Rightarrow> Inr (- (2 ^ 63)))"
proof -
  let ?r = "TrimSuffix (TrimSpace s) ''%''"
  show "parseSize pf s =
     (case pf ?r of
        Inl err \<Rightarrow> Inl (InvalidPercentage ?r)
      | Inr (Fin m e) \<Rightarrow>
          if f64_real (Fin m e) < 0 \<or> 100 < f64_real (Fin m e)
          then Inl (PercentageOutOfRange (Fin m e))
          else Inr (- \<lfloor>f64_real (Fin m e)\<rfloor>)
      | Inr PInf \<Rightarrow> Inl (PercentageOutOfRange PInf)
      | Inr NInf \<Rightarrow> Inl (PercentageOutOfRange NInf)
      | Inr NaN \<Rightarrow> Inr (- (2 ^ 63)))"
  proof (cases "pf ?r")
    case (Inl err)
    then show ?thesis by (simp add: parseSize_percent_eq [OF assms])
  next
    case (Inr v)
    show ?thesis
    proof (cases v)
      case (Fin m e)
      show ?thesis
      proof (cases "f64_real (Fin m e) < 0 \<or> 100 < f64_real (Fin m e)")
        case True
        then have "f64_lt (Fin m e) (float64_of_int64 0) \<or> f64_lt (float64_of_int64 100) (Fin m e)"
          by (simp only: f64_lt_zero f64_lt_hundred)
        then show ?thesis using True Inr Fin
          by (simp add: parseSize_percent_eq [OF assms] del: f64_real.simps f64_lt.simps)
      next
        case False
        then have "\<not> (f64_lt (Fin m e) (float64_of_int64 0) \<or> f64_lt (float64_of_int64 100) (Fin m e))"
          by (simp add: f64_lt_zero f64_lt_hundred del: f64_real.simps f64_lt.simps)
        moreover have "int64_of_f64 (f64_neg (Fin m e)) = - \<lfloor>f64_real (Fin m e)\<rfloor>"
          using False by (intro int64_of_f64_neg_percent) simp_all
        ultimately show ?thesis using False Inr Fin
          by (simp add: parseSize_percent_eq [OF assms] del: f64_real.simps f64_lt.simps f64_neg.simps int64_of_f64.simps)
      qed
    next
      case PInf
      then show ?thesis using Inr
        by (simp add: parseSize_percent_eq [OF assms] float64_of_int64_0 float64_of_int64_100)
    next
      case NInf
      then show ?thesis using Inr
        by (simp add: parseSize_percent_eq [OF assms] float64_of_int64_0 float64_of_int64_100)
    next
      case NaN
      then show ?thesis using Inr
        by (simp add: parseSize_percent_eq [OF assms] float64_of_int64_0 float64_of_int64_100)
    qed
  qed
qed

text \<open>
  C8 (as amended).  For an input ending in \<^verbatim>\<open>%\<close> the parser fails with the
  invalid-percentage error when \<^verbatim>\<open>ParseFloat\<close> rejects the remainder, and with the
  out-of-range error when the number is below 0 or above 100 (infinities included);
  it does not fail when the number is between 0 and 100.  When the number is between
  1 and 100 the result is the negated integer part of the percentage, which
  \<^verbatim>\<open>GenerateLoad\<close> reads as that whole percentage: the fraction is not carried.
\<close>

theorem parseSize_percentage:
  assumes "HasSuffix (TrimSpace s) ''%''"
  shows "(pf (TrimSuffix (TrimSpace s) ''%'') = Inl err \<longrightarrow>
            parseSize pf s = Inl (InvalidPercentage (TrimSuffix (TrimSpace s) ''%''))) \<and>
         (pf (TrimSuffix (TrimSpace s) ''%'') = Inr PInf \<longrightarrow>
            parseSize pf s = Inl (PercentageOutOfRange PInf)) \<and>
         (pf (TrimSuffix (TrimSpace s) ''%'') = Inr NInf \<longrightarrow>
            parseSize pf s = Inl (PercentageOutOfRange NInf)) \<and>
         (pf (TrimSuffix (TrimSpace s) ''%'') = Inr (Fin m e) \<longrightarrow>
            (f64_real (Fin m e) < 0 \<or> 100 < f64_real (Fin m e) \<longrightarrow>
               parseSize pf s = Inl (PercentageOutOfRange (Fin m e))) \<and>
            (0 \<le> f64_real (Fin m e) \<and> f64_real (Fin m e) \<le> 100 \<longrightarrow>
               \<not> isl (parseSize pf s)) \<and>
            (1 \<le> f64_real (Fin m e) \<and> f64_real (Fin m e) \<le> 100 \<longrightarrow>
               parseSize pf s = Inr (- \<lfloor>f64_real (Fin m e)\<rfloor>) \<and>
               GenerateLoad_mode (- \<lfloor>f64_real (Fin m e)\<rfloor>) =
                 Dynamic (of_int \<lfloor>f64_real (Fin m e)\<rfloor>)))"
proof -
  note cases = parseSize_percent_cases [OF assms, of pf]
  define v where "v = f64_real (Fin m e)"
  have mode: "GenerateLoad_mode (- \<lfloor>v\<rfloor>) = Dynamic (of_int \<lfloor>v\<rfloor>)" if "1 \<le> v" "v \<le> 100"
  proof -
    define k where "k = \<lfloor>v\<rfloor>"
    have "1 \<le> k" "k \<le> 100"
      unfolding k_def using that by (simp_all add: le_floor_iff floor_le_iff)
    then have "GenerateLoad_mode (- k) = Dynamic (of_int k)"
      using GenerateLoad_mode_percent [of k] by simp
    then show ?thesis unfolding k_def .
  qed
  have fin: "parseSize pf s =
      (if v < 0 \<or> 100 < v then Inl (PercentageOutOfRange (Fin m e)) else Inr (- \<lfloor>v\<rfloor>))"
    if "pf (TrimSuffix (TrimSpace s) ''%'') = Inr (Fin m e)"
    using cases that unfolding v_def by (simp del: f64_real.simps)
  have a: "pf (TrimSuffix (TrimSpace s) ''%'') = Inl err \<longrightarrow>
            parseSize pf s = Inl (InvalidPercentage (TrimSuffix (TrimSpace s) ''%''))"
    using cases by simp
  have b: "pf (TrimSuffix (TrimSpace s) ''%'') = Inr PInf \<longrightarrow>
            parseSize pf s = Inl (PercentageOutOfRange PInf)"
    using cases by simp
  have c: "pf (TrimSuffix (TrimSpace s) ''%'') = Inr NInf \<longrightarrow>
            parseSize pf s = Inl (PercentageOutOfRange NInf)"
    using cases by simp
  have d: "pf (TrimSuffix (TrimSpace s) ''%'') = Inr (Fin m e) \<longrightarrow>
            (v < 0 \<or> 100 < v \<longrightarrow> parseSize pf s = Inl (PercentageOutOfRange (Fin m e))) \<and>
            (0 \<le> v \<and> v \<le> 100 \<longrightarrow> \<not> isl (parseSize pf s)) \<and>
            (1 \<le> v \<and> v \<le> 100 \<longrightarrow>
               parseSize pf s = Inr (- \<lfloor>v\<rfloor>) \<and>
               GenerateLoad_mode (- \<lfloor>v\<rfloor>) = Dynamic (of_int \<lfloor>v\<rfloor>))"
    using fin mode by auto
  show ?thesis using a b c d unfolding v_def by blast
qed

lemma eval_80_percent:
  "HasSuffix (TrimSpace ''80%'') ''%''"
  "TrimSuffix (TrimSpace ''80%'') ''%'' = ''80''"
  "ParseFloat_decimal ''80'' = Inr (Fin 5629499534213120 (- 46))"
  by (simp_all add: str_eval parse_eval f64_eval)

theorem parseSize_percentage_witness:
  "parseSize ParseFloat_decimal ''80%'' = Inr (- 80) \<and> GenerateLoad_mode (- 80) = Dynamic 80"
  using parseSize_percentage [of "''80%''" ParseFloat_decimal ErrSyntax 5629499534213120 "- 46"]
    eval_80_percent
  by (simp add: power_int_def power_one_over)

theorem parseSize_percentage_counterexample:
  "ParseFloat_decimal ''80.5'' = Inr (Fin 5664683906301952 (- 46)) \<and>
   f64_real (Fin 5664683906301952 (- 46)) = 161 / 2 \<and>
   parseSize ParseFloat_decimal ''80.5%'' = Inr (- 80) \<and>
   GenerateLoad_mode (- 80) = Dynamic 80"
  using GenerateLoad_mode_percent [of 80]
  by (simp add: str_eval parse_eval f64_eval power_int_def power_one_over)

text \<open>
  C9 (as amended).  For an input that does not end in \<^verbatim>\<open>%\<close>, the parser fails with
  the invalid-size-format error exactly when the pattern does not match; the
  unsupported-unit error is never returned, because the pattern admits recognised
  units only.
\<close>

theorem parseSize_malformed:
  assumes "\<not> HasSuffix (TrimSpace s) ''%''"
  shows "(parseSize pf s = Inl (InvalidSizeFormat (TrimSpace s)) \<longleftrightarrow>
            FindStringSubmatch (ToUpper (TrimSpace s)) = None) \<and>
         (\<forall>u. parseSize pf s \<noteq> Inl (UnsupportedUnit u))"
proof (cases "FindStringSubmatch (ToUpper (TrimSpace s))")
  case None
  then show ?thesis by (simp add: parseSize_absolute_eq [OF assms])
next
  case (Some a)
  obtain n un where a: "a = (n, un)" by (cases a)
  with Some have "unit_re un" using FindStringSubmatch_unit by blast
  then have "unit_multiplier un = Some (1024 ^ spec_unit_index un)" by (rule unit_re_multiplier)
  then show ?thesis using Some a
    by (simp add: parseSize_absolute_eq [OF assms] split: sum.splits)
qed

lemma eval_abc: "\<not> HasSuffix (TrimSpace ''abc'') ''%''"
  "TrimSpace ''abc'' = ''abc''"
  "FindStringSubmatch (ToUpper (TrimSpace ''abc'')) = None"
  by (simp_all add: str_eval parse_eval)

theorem parseSize_malformed_witness:
  "parseSize ParseFloat_decimal ''abc'' = Inl (InvalidSizeFormat ''abc'')"
  using parseSize_malformed [of "''abc''" ParseFloat_decimal] eval_abc by simp

theorem parseSize_10XB_counterexample:
  "parseSize ParseFloat_decimal ''10XB'' = Inl (InvalidSizeFormat ''10XB'')"
  by (simp add: str_eval parse_eval)

section \<open>The static storage allocator writes ten files\<close>

lemma writeFile_loop_done: "written \<le> sz \<Longrightarrow> writeFile_loop written sz = sz"
proof (induction written sz rule: writeFile_loop.induct)
  case (1 written sz)
  show ?case
  proof (cases "written < sz")
    case True
    then have "writeFile_loop written sz =
        writeFile_loop (written + (if sz < written + 64 * 1024 then sz - written else 64 * 1024)) sz"
      by (subst writeFile_loop.simps) (simp add: Let_def)
    also have "\<dots> = sz"
      using True by (intro "1.IH") (auto simp: Let_def)
    finally show ?thesis .
  next
    case False
    with "1.prems" show ?thesis by (subst writeFile_loop.simps) simp
  qed
qed

lemma writeFile_ok: "0 \<le> sz \<Longrightarrow> writeFile WriteOk f sz d = (True, d(f \<mapsto> sz))"
  by (simp add: writeFile_def writeFile_loop_done)

lemma write_files_ok:
  assumes "\<forall>i\<in>set fs. \<not> cancelled_before env i \<and> static_write env i = WriteOk" and "0 \<le> fileSize"
  shows "write_files env fs fileSize d = (Completed, \<lambda>i. if i \<in> set fs then Some fileSize else d i)"
  using assms
proof (induction fs arbitrary: d)
  case Nil
  then show ?case by simp
next
  case (Cons f fs)
  then have "write_files env (f # fs) fileSize d = write_files env fs fileSize (d(f \<mapsto> fileSize))"
    by (simp add: writeFile_ok)
  also have "\<dots> = (Completed, \<lambda>i. if i \<in> set fs then Some fileSize else (d(f \<mapsto> fileSize)) i)"
    using Cons.prems by (intro Cons.IH) simp_all
  finally show ?case by (auto simp: fun_eq_iff)
qed

lemma held_bytes_const:
  "(\<And>f. f \<in> set fs \<Longrightarrow> d f = Some n) \<Longrightarrow> held_bytes d fs = int (length fs) * n"
  by (induction fs) (simp_all add: held_bytes_def file_size_def algebra_simps)

text \<open>
  C10.  For a fixed-storage request of \<open>totalSize \<ge> 0\<close> bytes whose write phase is
  neither cancelled nor hit by an I/O error, the allocator writes exactly the 10 files
  0 to 9, each of \<open>max (totalSize div 10) (1024 * 1024)\<close> bytes.  Below 10 MiB the bytes
  written are 10 MiB, more than requested; from 10 MiB on they are
  \<open>10 * (totalSize div 10)\<close>, at most 9 bytes less than requested.
\<close>

theorem static_storage_files:
  assumes "0 \<le> totalSize"
    and "\<forall>i<10. \<not> cancelled_before env i \<and> static_write env i = WriteOk"
  shows "\<exists>d. storage_write_phase env totalSize Map.empty = (Completed, d) \<and>
           dom d = {0..<10} \<and>
           (\<forall>i<10. d i = Some (max (totalSize div 10) (1024 * 1024))) \<and>
           held_bytes d [0..<10] = 10 * max (totalSize div 10) (1024 * 1024) \<and>
           (totalSize < 10 * (1024 * 1024) \<longrightarrow>
              held_bytes d [0..<10] = 10 * (1024 * 1024) \<and> totalSize < held_bytes d [0..<10]) \<and>
           (10 * (1024 * 1024) \<le> totalSize \<longrightarrow>
              held_bytes d [0..<10] = 10 * (totalSize div 10) \<and>
              totalSize - 9 \<le> held_bytes d [0..<10] \<and> held_bytes d [0..<10] \<le> totalSize)"
proof -
  define fileSize where "fileSize = max (totalSize div 10) (1024 * 1024)"
  define d :: dir where "d = (\<lambda>i. if i \<in> set [0..<10] then Some fileSize else None)"
  have gd: "go_div totalSize 10 = totalSize div 10"
    using assms(1) by (cases "totalSize = 0") (simp_all add: go_div_def)
  have fs: "(if go_div totalSize 10 < 1048576 then 1048576 else go_div totalSize 10) = fileSize"
    by (simp add: gd fileSize_def max_def)
  have "0 \<le> fileSize" by (simp add: fileSize_def)
  then have "write_files env [0..<10] fileSize Map.empty = (Completed, d)"
    unfolding d_def using assms(2) by (intro write_files_ok) simp_all
  then have run: "storage_write_phase env totalSize Map.empty = (Completed, d)"
    by (simp add: storage_write_phase_def Let_def fs split del: if_split)
  have dom: "dom d = {0..<10}" by (auto simp: d_def dom_def)
  have each: "\<forall>i<10. d i = Some fileSize" by (simp add: d_def)
  have "held_bytes d [0..<10] = int (length [0..<10::nat]) * fileSize"
    by (rule held_bytes_const) (simp add: d_def)
  then have total: "held_bytes d [0..<10] = 10 * fileSize" by simp
  have small: "totalSize < 10 * (1024 * 1024) \<longrightarrow>
      held_bytes d [0..<10] = 10 * (1024 * 1024) \<and> totalSize < held_bytes d [0..<10]"
    unfolding total fileSize_def by (auto simp: max_def)
  have large: "10 * (1024 * 1024) \<le> totalSize \<longrightarrow>
      held_bytes d [0..<10] = 10 * (totalSize div 10) \<and>
      totalSize - 9 \<le> held_bytes d [0..<10] \<and> held_bytes d [0..<10] \<le> totalSize"
    unfolding total fileSize_def by (auto simp: max_def)
  show ?thesis
    using run dom each total small large unfolding fileSize_def by blast
qed

theorem static_storage_files_witness:
  "held_bytes (snd (storage_write_phase
      \<lparr>cancelled_before = \<lambda>i. False, static_write = \<lambda>i. WriteOk, static_appended = []\<rparr>
      1000000007 Map.empty)) [0..<10] = 1000000000"
  using static_storage_files [of 1000000007
      "\<lparr>cancelled_before = \<lambda>i. False, static_write = \<lambda>i. WriteOk, static_appended = []\<rparr>"]
  by auto

section \<open>The dynamic memory controller: ticks and invariant\<close>

lemma int64_of_f64_range: "is_int64 (int64_of_f64 v)"
  by (cases v) (simp_all add: Let_def is_int64_def)

lemma calc_memory_Inr:
  assumes "calculatePercentageSize_memory percent sys = Inr t"
  shows "0 < t \<and> t < 2 ^ 63"
proof -
  from assms obtain v where "t = int64_of_f64 v" "0 < t"
    by (auto simp: calculatePercentageSize_memory_def Let_def split: if_splits)
  then show ?thesis using int64_of_f64_range [of v] by (simp add: is_int64_def)
qed

lemma calc_storage_Inr:
  assumes "calculatePercentageSize_storage percent probe = Inr t"
  shows "0 < t \<and> t < 2 ^ 63"
proof -
  from assms obtain v where "t = int64_of_f64 v" "0 < t"
    by (auto simp: calculatePercentageSize_storage_def Let_def split: if_splits sum.splits)
  then show ?thesis using int64_of_f64_range [of v] by (simp add: is_int64_def)
qed

lemma sum_list_pos_le:
  "list_all (\<lambda>b. 0 < b) xs \<Longrightarrow> (0::int) \<le> sum_list xs"
  by (induction xs) auto

lemma release_loop_spec:
  assumes "length bufs = Suc i" and "list_all (\<lambda>b. 0 < b) bufs" and "0 \<le> r"
    and "r + sum_list bufs < 2 ^ 63"
  shows "\<exists>k. 1 \<le> k \<and> k \<le> Suc i \<and>
           release_loop i bufs r excess (sum_list bufs) =
             (take k bufs, r + sum_list (drop k bufs), sum_list (take k bufs)) \<and>
           (excess \<le> r + sum_list (drop k bufs) \<or> k = 1) \<and>
           (k < Suc i \<longrightarrow> r + sum_list (drop (Suc k) bufs) < excess)"
  using assms
proof (induction i arbitrary: bufs r)
  case 0
  then show ?case by (intro exI [of _ 1]) simp
next
  case (Suc j)
  show ?case
  proof (cases "r < excess")
    case False
    then show ?thesis using Suc.prems by (intro exI [of _ "Suc (Suc j)"]) simp
  next
    case True
    from Suc.prems(1) obtain B b where bufs: "bufs = B @ [b]" and lenB: "length B = Suc j"
      by (cases bufs rule: rev_cases) auto
    have posB: "list_all (\<lambda>b. 0 < b) B" and b: "0 < b"
      using Suc.prems(2) by (simp_all add: bufs)
    have sB: "0 \<le> sum_list B" using posB by (rule sum_list_pos_le)
    have nth: "bufs ! Suc j = b" and tk: "take (Suc j) bufs = B"
      using lenB by (simp_all add: bufs nth_append)
    have r': "int64 (r + b) = r + b"
      using Suc.prems(3,4) b sB by (intro int64_id) (simp add: is_int64_def bufs)
    have a': "int64 (sum_list bufs - b) = sum_list B"
      using Suc.prems(3,4) b sB by (simp add: bufs int64_id is_int64_def)
    have step: "release_loop (Suc j) bufs r excess (sum_list bufs) =
        release_loop j B (r + b) excess (sum_list B)"
      using True by (simp add: nth tk r' a' Let_def)
    have "\<exists>k. 1 \<le> k \<and> k \<le> Suc j \<and>
           release_loop j B (r + b) excess (sum_list B) =
             (take k B, r + b + sum_list (drop k B), sum_list (take k B)) \<and>
           (excess \<le> r + b + sum_list (drop k B) \<or> k = 1) \<and>
           (k < Suc j \<longrightarrow> r + b + sum_list (drop (Suc k) B) < excess)"
      using Suc.prems(3,4) b posB lenB by (intro Suc.IH) (simp_all add: bufs)
    then obtain k where k: "1 \<le> k" "k \<le> Suc j"
      and run: "release_loop j B (r + b) excess (sum_list B) =
             (take k B, r + b + sum_list (drop k B), sum_list (take k B))"
      and stop: "excess \<le> r + b + sum_list (drop k B) \<or> k = 1"
      and last: "k < Suc j \<longrightarrow> r + b + sum_list (drop (Suc k) B) < excess"
      by blast
    have t: "take k bufs = take k B" and d: "sum_list (drop k bufs) = sum_list (drop k B) + b"
      using k lenB by (simp_all add: bufs)
    have l: "r + sum_list (drop (Suc k) bufs) < excess"
    proof (cases "k < Suc j")
      case True
      then have "sum_list (drop (Suc k) bufs) = sum_list (drop (Suc k) B) + b"
        using lenB by (simp add: bufs)
      with last True show ?thesis by simp
    next
      case False
      with k have "k = Suc j" by simp
      then have "drop (Suc k) bufs = []" using lenB by (simp add: bufs)
      with \<open>r < excess\<close> show ?thesis by simp
    qed
    have "release_loop (Suc j) bufs r excess (sum_list bufs) =
        (take k B, r + b + sum_list (drop k B), sum_list (take k B))"
      by (simp only: step run)
    also have "\<dots> = (take k bufs, r + sum_list (drop k bufs), sum_list (take k bufs))"
      by (simp add: t d)
    finally have res: "release_loop (Suc j) bufs r excess (sum_list bufs) =
        (take k bufs, r + sum_list (drop k bufs), sum_list (take k bufs))" .
    have stop': "excess \<le> r + sum_list (drop k bufs) \<or> k = 1"
      using stop by (simp add: d algebra_simps)
    have "1 \<le> k \<and> k \<le> Suc (Suc j)" using k by simp
    then show ?thesis
      using res stop' l by blast
  qed
qed


lemma mem_tick_shrink:
  assumes inv: "mem_inv s"
    and calc: "calculatePercentageSize_memory percent (mem_sys env) = Inr target"
    and less: "target < totalAllocated s" and two: "2 \<le> length (buffers s)"
  shows "\<exists>s' k. mem_tick percent env s =
             Some (s', [MemDecreased (totalAllocated s - totalAllocated s') (totalAllocated s'),
                        MemStats (totalAllocated s')]) \<and>
           1 \<le> k \<and> k < length (buffers s) \<and>
           buffers s' = take k (buffers s) \<and>
           totalAllocated s' = sum_list (take k (buffers s)) \<and>
           totalAllocated s - totalAllocated s' = sum_list (drop k (buffers s)) \<and>
           (totalAllocated s' \<le> target \<or> k = 1) \<and>
           target < totalAllocated s' + buffers s ! k"
proof -
  define i where "i = length (buffers s) - 1"
  define excess where "excess = totalAllocated s - target"
  have t: "0 < target" using calc_memory_Inr [OF calc] by simp
  have len: "length (buffers s) = Suc i" using two by (simp add: i_def)
  have pos: "list_all (\<lambda>b. 0 < b) (buffers s)" and tot: "totalAllocated s = sum_list (buffers s)"
    and lt: "totalAllocated s < 2 ^ 63"
    using inv by (simp_all add: mem_inv_def)
  have ex: "int64 (totalAllocated s - target) = excess" "0 < excess"
    using t less lt by (simp_all add: excess_def int64_id is_int64_def)
  from release_loop_spec [OF len pos, of 0 excess] lt tot
  obtain k where k: "1 \<le> k" "k \<le> Suc i"
    and run: "release_loop i (buffers s) 0 excess (totalAllocated s) =
        (take k (buffers s), sum_list (drop k (buffers s)), sum_list (take k (buffers s)))"
    and stop: "excess \<le> sum_list (drop k (buffers s)) \<or> k = 1"
    and last: "k < Suc i \<longrightarrow> sum_list (drop (Suc k) (buffers s)) < excess"
    by auto
  have split: "sum_list (take k (buffers s)) + sum_list (drop k (buffers s)) = totalAllocated s"
    unfolding tot by (simp only: sum_list_append [symmetric] append_take_drop_id)
  have klt: "k < Suc i"
  proof (rule ccontr)
    assume "\<not> k < Suc i"
    with k have "k = length (buffers s)" by (simp add: len)
    with stop two ex(2) show False by auto
  qed
  with last have l: "sum_list (drop (Suc k) (buffers s)) < excess" by simp
  have dr: "drop k (buffers s) = buffers s ! k # drop (Suc k) (buffers s)"
    using klt len by (simp add: Cons_nth_drop_Suc)
  have "0 < buffers s ! k" using pos klt len by (simp add: list_all_length)
  then have rel: "0 < sum_list (drop k (buffers s))"
    using sum_list_pos_le [of "drop (Suc k) (buffers s)"] pos
    by (simp add: dr list_all_iff) (meson in_set_dropD add_pos_nonneg)
  define s' where "s' = \<lparr>buffers = take k (buffers s), totalAllocated = sum_list (take k (buffers s))\<rparr>"
  have diff: "totalAllocated s - totalAllocated s' = sum_list (drop k (buffers s))"
    using split by (simp add: s'_def)
  have "mem_tick percent env s =
      (case release_loop i (buffers s) 0 excess (totalAllocated s) of
         (bufs, releasedSize, allocated) \<Rightarrow>
           Some (\<lparr>buffers = bufs, totalAllocated = allocated\<rparr>,
                 (if 0 < releasedSize then [MemDecreased releasedSize allocated] else []) @
                 [MemStats allocated]))"
    using less two by (simp add: mem_tick_def calc Let_def ex i_def)
  also have "\<dots> =
      Some (s', [MemDecreased (sum_list (drop k (buffers s))) (totalAllocated s'), MemStats (totalAllocated s')])"
    using rel by (simp add: run s'_def)
  finally have "mem_tick percent env s =
      Some (s', [MemDecreased (sum_list (drop k (buffers s))) (totalAllocated s'), MemStats (totalAllocated s')])" .
  moreover have "totalAllocated s' \<le> target \<or> k = 1"
    using stop diff by (auto simp: excess_def)
  moreover have "target < totalAllocated s' + buffers s ! k"
    using l diff by (simp add: excess_def dr)
  ultimately show ?thesis
    using k(1) klt len diff by (intro exI [of _ s'] exI [of _ k]) (simp add: s'_def)
qed


lemma mem_tick_grow:
  assumes inv: "mem_inv s"
    and calc: "calculatePercentageSize_memory percent (mem_sys env) = Inr target"
    and more: "totalAllocated s < target" and ok: "alloc_ok env"
  shows "mem_tick percent env s =
           Some (\<lparr>buffers = buffers s @ [target - totalAllocated s], totalAllocated = target\<rparr>,
                 [MemIncreased (target - totalAllocated s) target, MemStats target])"
proof -
  have t: "target < 2 ^ 63" using calc_memory_Inr [OF calc] by simp
  have "0 \<le> totalAllocated s"
    using inv sum_list_pos_le [of "buffers s"] by (simp add: mem_inv_def)
  then have add: "int64 (target - totalAllocated s) = target - totalAllocated s"
    using more t by (intro int64_id) (simp add: is_int64_def)
  have "int64 target = target"
    using t more \<open>0 \<le> totalAllocated s\<close> by (intro int64_id) (simp add: is_int64_def)
  then show ?thesis
    using more ok by (simp add: mem_tick_def calc Let_def add)
qed

lemma mem_tick_exclusive:
  "mem_tick percent env s = Some (s', out) \<Longrightarrow> \<not> (list_ex mem_grows out \<and> list_ex mem_shrinks out)"
  by (auto simp: mem_tick_def Let_def split: sum.splits if_splits prod.splits)

lemma mem_tick_inv:
  assumes inv: "mem_inv s" and tick: "mem_tick percent env s = Some (s', out)"
  shows "mem_inv s' \<and> hd (buffers s') = hd (buffers s)"
proof (cases "calculatePercentageSize_memory percent (mem_sys env)")
  case (Inl err)
  with tick inv show ?thesis by (simp add: mem_tick_def)
next
  case (Inr target)
  have t: "0 < target" "target < 2 ^ 63" using calc_memory_Inr [OF Inr] by simp_all
  have ne: "buffers s \<noteq> []" using inv by (simp add: mem_inv_def)
  consider (grow) "totalAllocated s < target"
    | (shrink) "target < totalAllocated s" "2 \<le> length (buffers s)"
    | (keep) "\<not> totalAllocated s < target" "\<not> (target < totalAllocated s \<and> 1 < length (buffers s))"
    by fastforce
  then show ?thesis
  proof cases
    case grow
    have ok: "alloc_ok env"
    proof (rule ccontr)
      assume "\<not> alloc_ok env"
      moreover have "0 \<le> totalAllocated s"
        using inv sum_list_pos_le [of "buffers s"] by (simp add: mem_inv_def)
      then have "0 < int64 (target - totalAllocated s)"
        using grow t by (simp add: int64_id is_int64_def)
      ultimately show False using tick grow by (simp add: mem_tick_def Inr Let_def)
    qed
    from mem_tick_grow [OF inv Inr grow ok] tick
    have s': "s' = \<lparr>buffers = buffers s @ [target - totalAllocated s], totalAllocated = target\<rparr>"
      by simp
    show ?thesis using inv grow t ne by (simp add: s' mem_inv_def)
  next
    case shrink
    from mem_tick_shrink [OF inv Inr shrink]
    obtain s2 k where run: "mem_tick percent env s =
          Some (s2, [MemDecreased (totalAllocated s - totalAllocated s2) (totalAllocated s2),
                     MemStats (totalAllocated s2)])"
      and k2: "1 \<le> k" "buffers s2 = take k (buffers s)"
      "totalAllocated s2 = sum_list (take k (buffers s))"
      "totalAllocated s - totalAllocated s2 = sum_list (drop k (buffers s))"
      by blast
    from run tick have "s2 = s'" by simp
    with k2 have k: "1 \<le> k" "buffers s' = take k (buffers s)"
      "totalAllocated s' = sum_list (take k (buffers s))"
      "totalAllocated s - totalAllocated s' = sum_list (drop k (buffers s))"
      by simp_all
    have pos: "list_all (\<lambda>b. 0 < b) (buffers s)" and lt: "totalAllocated s < 2 ^ 63"
      using inv by (simp_all add: mem_inv_def)
    have "list_all (\<lambda>b. 0 < b) (drop k (buffers s))"
      using pos by (auto simp: list_all_iff dest: in_set_dropD)
    then have "0 \<le> sum_list (drop k (buffers s))" by (rule sum_list_pos_le)
    with k(4) lt have "totalAllocated s' < 2 ^ 63" by simp
    moreover have "list_all (\<lambda>b. 0 < b) (take k (buffers s))"
      using pos by (auto simp: list_all_iff dest: in_set_takeD)
    moreover have "take k (buffers s) \<noteq> []" "hd (take k (buffers s)) = hd (buffers s)"
      using k(1) ne by (simp_all add: hd_take)
    ultimately show ?thesis using k by (simp add: mem_inv_def)
  next
    case keep
    with tick have "s' = s" by (auto simp: mem_tick_def Inr Let_def split: if_splits)
    with inv show ?thesis by simp
  qed
qed

lemma mem_init_inv:
  assumes "mem_init percent env = Some (Inr s)"
  shows "mem_inv s \<and> length (buffers s) = 1"
proof -
  from assms obtain t where calc: "calculatePercentageSize_memory percent (mem_sys env) = Inr t"
    by (auto simp: mem_init_def split: sum.splits)
  have "0 < t" "t < 2 ^ 63" using calc_memory_Inr [OF calc] by simp_all
  then show ?thesis using assms
    by (auto simp: mem_init_def calc mem_inv_def split: if_splits)
qed

lemma mem_trace_inv:
  "mem_inv s \<Longrightarrow> x \<in> set (mem_trace percent envs s) \<Longrightarrow>
     mem_inv x \<and> hd (buffers x) = hd (buffers s)"
proof (induction envs arbitrary: s)
  case Nil
  then show ?case by simp
next
  case (Cons env envs)
  show ?case
  proof (cases "x = s")
    case True
    with Cons.prems show ?thesis by simp
  next
    case False
    show ?thesis
    proof (cases "mem_tick percent env s")
      case None
      with Cons.prems(2) False show ?thesis by simp
    next
      case (Some r)
      obtain s' out where r: "r = (s', out)" by (cases r)
      with Some have tick: "mem_tick percent env s = Some (s', out)" by simp
      with Cons.prems(2) False have x: "x \<in> set (mem_trace percent envs s')" by simp
      from mem_tick_inv [OF Cons.prems(1) tick] have "mem_inv s'" "hd (buffers s') = hd (buffers s)"
        by simp_all
      with Cons.IH [OF _ x] show ?thesis by simp
    qed
  qed
qed

lemma mem_loop_releases:
  "mem_loop percent envs s msgs = Some (s', out) \<Longrightarrow> buffers s' = []"
  by (induction envs arbitrary: s msgs) (auto split: option.splits)

lemma generateDynamicLoad_releases:
  "generateDynamicLoad percent env0 ticks = Some (s', out) \<Longrightarrow> buffers s' = []"
  by (auto simp: generateDynamicLoad_def split: option.splits sum.splits dest: mem_loop_releases)

section \<open>The dynamic storage controller: ticks\<close>

lemma held_bytes_append: "held_bytes d (xs @ ys) = held_bytes d xs + held_bytes d ys"
  by (simp add: held_bytes_def)

lemma held_bytes_Nil: "held_bytes d [] = 0"
  by (simp add: held_bytes_def)

lemma held_bytes_single: "held_bytes d [f] = file_size d f"
  by (simp add: held_bytes_def)

lemma held_bytes_Cons: "held_bytes d (g # fs) = file_size d g + held_bytes d fs"
  by (simp add: held_bytes_def)

lemma file_size_upd_same: "file_size (d(f \<mapsto> v)) f = v"
  by (simp add: file_size_def)

lemma file_size_upd_other: "g \<noteq> f \<Longrightarrow> file_size (d(f := x)) g = file_size d g"
  by (simp add: file_size_def)

lemma held_bytes_upd_other: "f \<notin> set fs \<Longrightarrow> held_bytes (d(f := x)) fs = held_bytes d fs"
  by (induction fs) (simp_all add: held_bytes_Nil held_bytes_Cons file_size_upd_other)

lemma held_bytes_upd_in:
  "distinct fs \<Longrightarrow> f \<in> set fs \<Longrightarrow> held_bytes (d(f \<mapsto> v)) fs = held_bytes d fs - file_size d f + v"
proof (induction fs)
  case Nil
  then show ?case by simp
next
  case (Cons g fs)
  show ?case
  proof (cases "g = f")
    case True
    with Cons.prems have "f \<notin> set fs" by simp
    then have *: "held_bytes (d(f \<mapsto> v)) fs = held_bytes d fs" by (rule held_bytes_upd_other)
    have "held_bytes (d(f \<mapsto> v)) (f # fs) = held_bytes d (f # fs) - file_size d f + v"
      by (simp add: held_bytes_Cons file_size_upd_same * del: fun_upd_apply)
    then show ?thesis by (simp only: True)
  next
    case False
    have *: "held_bytes (d(f \<mapsto> v)) fs = held_bytes d fs - file_size d f + v"
      using Cons.prems False by (intro Cons.IH) simp_all
    have "file_size (d(f \<mapsto> v)) g = file_size d g"
      using False by (rule file_size_upd_other)
    then show ?thesis by (simp add: held_bytes_Cons * del: fun_upd_apply)
  qed
qed

lemma sto_present_eq: "sto_present s \<longleftrightarrow> present_in (disk s) (currentFiles s)"
  by (simp add: sto_present_def present_in_def)

lemma present_in_held: "present_in d fs \<Longrightarrow> 0 \<le> held_bytes d fs"
  by (induction fs) (auto simp: present_in_def held_bytes_def file_size_def split: option.splits)

lemma present_in_file:
  "present_in d fs \<Longrightarrow> f \<in> set fs \<Longrightarrow> \<exists>n. d f = Some n \<and> 0 \<le> n \<and> file_size d f = n"
  by (auto simp: present_in_def list_all_iff file_size_def split: option.splits)

lemma present_in_upd_other: "f \<notin> set fs \<Longrightarrow> present_in (d(f := x)) fs = present_in d fs"
  by (auto simp: present_in_def list_all_iff)

lemma delete_loop_spec:
  assumes "length (currentFiles s) = Suc i" and "distinct (currentFiles s)"
    and "present_in (disk s) (currentFiles s)"
    and "list_all (\<lambda>f. stat_ok env f \<and> remove_ok env f) (currentFiles s)"
    and "0 \<le> r" and "r + held_bytes (disk s) (currentFiles s) < 2 ^ 63"
    and "totalWritten s < 2 ^ 63"
    and "- (2 ^ 63) \<le> totalWritten s - held_bytes (disk s) (currentFiles s)"
  shows "\<exists>k s'. 1 \<le> k \<and> k \<le> Suc i \<and>
      delete_loop env i s r excess = (s', r + held_bytes (disk s) (drop k (currentFiles s))) \<and>
      currentFiles s' = take k (currentFiles s) \<and>
      totalWritten s' = totalWritten s - held_bytes (disk s) (drop k (currentFiles s)) \<and>
      fileCounter s' = fileCounter s \<and>
      disk s' = (\<lambda>f. if f \<in> set (drop k (currentFiles s)) then None else disk s f) \<and>
      (excess \<le> r + held_bytes (disk s) (drop k (currentFiles s)) \<or> k = 1) \<and>
      (k < Suc i \<longrightarrow> r + held_bytes (disk s) (drop (Suc k) (currentFiles s)) < excess)"
  using assms
proof (induction i arbitrary: s r)
  case 0
  then show ?case
    by (intro exI [of _ 1] exI [of _ s]) (simp add: held_bytes_Nil)
next
  case (Suc j)
  show ?case
  proof (cases "r < excess")
    case False
    then show ?thesis using Suc.prems(1)
      by (intro exI [of _ "Suc (Suc j)"] exI [of _ s]) (simp add: held_bytes_Nil)
  next
    case True
    define d where "d = disk s"
    from Suc.prems(1) obtain F f where fs: "currentFiles s = F @ [f]" and lenF: "length F = Suc j"
      by (cases "currentFiles s" rule: rev_cases) auto
    have fF: "f \<notin> set F" and dF: "distinct F" using Suc.prems(2) by (simp_all add: fs)
    obtain n where n: "d f = Some n" "0 \<le> n" "file_size d f = n"
      using present_in_file [OF Suc.prems(3), of f] by (auto simp: fs d_def)
    have pF: "present_in d F" using Suc.prems(3) by (simp add: fs d_def present_in_def)
    have hF: "0 \<le> held_bytes d F" using pF by (rule present_in_held)
    have held: "held_bytes d (F @ [f]) = held_bytes d F + n"
      by (simp add: held_bytes_append held_bytes_single n)
    have ok: "stat_ok env f" "remove_ok env f" using Suc.prems(4) by (simp_all add: fs)
    have nth: "currentFiles s ! Suc j = f" and tk: "take (Suc j) (currentFiles s) = F"
      using lenF by (simp_all add: fs nth_append)
    have r': "int64 (r + n) = r + n"
      using Suc.prems(5,6) n(2) hF unfolding fs d_def [symmetric] held
      by (intro int64_id) (simp add: is_int64_def)
    have tw': "int64 (totalWritten s - n) = totalWritten s - n"
      using Suc.prems(7,8) n(2) hF unfolding fs d_def [symmetric] held
      by (intro int64_id) (simp add: is_int64_def)
    define s1 where "s1 = s\<lparr>disk := d(f := None), totalWritten := totalWritten s - n, currentFiles := F\<rparr>"
    have step: "delete_loop env (Suc j) s r excess = delete_loop env j s1 (r + n) excess"
      using True ok n(1)
      by (simp add: nth tk os_Stat_def d_def [symmetric] r' tw' s1_def Let_def)
    have h1: "held_bytes (disk s1) xs = held_bytes d xs" if "f \<notin> set xs" for xs
      using that by (simp add: s1_def held_bytes_upd_other)
    have "\<exists>k s'. 1 \<le> k \<and> k \<le> Suc j \<and>
      delete_loop env j s1 (r + n) excess = (s', r + n + held_bytes (disk s1) (drop k (currentFiles s1))) \<and>
      currentFiles s' = take k (currentFiles s1) \<and>
      totalWritten s' = totalWritten s1 - held_bytes (disk s1) (drop k (currentFiles s1)) \<and>
      fileCounter s' = fileCounter s1 \<and>
      disk s' = (\<lambda>g. if g \<in> set (drop k (currentFiles s1)) then None else disk s1 g) \<and>
      (excess \<le> r + n + held_bytes (disk s1) (drop k (currentFiles s1)) \<or> k = 1) \<and>
      (k < Suc j \<longrightarrow> r + n + held_bytes (disk s1) (drop (Suc k) (currentFiles s1)) < excess)"
    proof (rule Suc.IH)
      show "length (currentFiles s1) = Suc j" by (simp add: s1_def lenF)
      show "distinct (currentFiles s1)" by (simp add: s1_def dF)
      show "present_in (disk s1) (currentFiles s1)"
        using pF fF by (simp add: s1_def present_in_upd_other)
      show "list_all (\<lambda>f. stat_ok env f \<and> remove_ok env f) (currentFiles s1)"
        using Suc.prems(4) by (simp add: s1_def fs)
      show "0 \<le> r + n" using Suc.prems(5) n(2) by simp
      have "held_bytes (disk s1) (currentFiles s1) = held_bytes d F"
        using h1 [OF fF] by (simp add: s1_def)
      then show "r + n + held_bytes (disk s1) (currentFiles s1) < 2 ^ 63"
        using Suc.prems(6) unfolding fs d_def [symmetric] held by simp
      show "totalWritten s1 < 2 ^ 63" using Suc.prems(7) n(2) by (simp add: s1_def)
      show "- (2 ^ 63) \<le> totalWritten s1 - held_bytes (disk s1) (currentFiles s1)"
        using Suc.prems(8) h1 [OF fF] unfolding fs d_def [symmetric] held by (simp add: s1_def)
    qed
    then obtain k s' where k: "1 \<le> k" "k \<le> Suc j"
      and run: "delete_loop env j s1 (r + n) excess = (s', r + n + held_bytes (disk s1) (drop k F))"
      and cf: "currentFiles s' = take k F"
      and tw: "totalWritten s' = totalWritten s - n - held_bytes (disk s1) (drop k F)"
      and fc: "fileCounter s' = fileCounter s"
      and dk: "disk s' = (\<lambda>g. if g \<in> set (drop k F) then None else disk s1 g)"
      and stop: "excess \<le> r + n + held_bytes (disk s1) (drop k F) \<or> k = 1"
      and last: "k < Suc j \<longrightarrow> r + n + held_bytes (disk s1) (drop (Suc k) F) < excess"
      unfolding s1_def by (auto simp: s1_def)
    have nd: "f \<notin> set (drop m F)" for m using fF by (auto dest: in_set_dropD)
    have hk: "held_bytes (disk s1) (drop m F) = held_bytes d (drop m F)" for m
      by (rule h1) (rule nd)
    have t: "take k (currentFiles s) = take k F" and dr: "drop k (currentFiles s) = drop k F @ [f]"
      using k lenF by (simp_all add: fs)
    have hd: "held_bytes d (drop k (currentFiles s)) = held_bytes d (drop k F) + n"
      by (simp add: dr held_bytes_append held_bytes_single n)
    have l: "r + held_bytes d (drop (Suc k) (currentFiles s)) < excess"
    proof (cases "k < Suc j")
      case True
      then have "drop (Suc k) (currentFiles s) = drop (Suc k) F @ [f]"
        using lenF by (simp add: fs)
      then have "held_bytes d (drop (Suc k) (currentFiles s)) = held_bytes d (drop (Suc k) F) + n"
        by (simp add: held_bytes_append held_bytes_single n)
      with last True show ?thesis by (simp add: hk)
    next
      case False
      with k have "k = Suc j" by simp
      then have "drop (Suc k) (currentFiles s) = []" using lenF by (simp add: fs)
      with \<open>r < excess\<close> show ?thesis by (simp add: held_bytes_Nil)
    qed
    have res: "delete_loop env (Suc j) s r excess = (s', r + held_bytes d (drop k (currentFiles s)))"
      by (simp only: step run) (simp add: hk hd)
    have tw2: "totalWritten s' = totalWritten s - held_bytes d (drop k (currentFiles s))"
      by (simp add: tw hk hd)
    have dk2: "disk s' = (\<lambda>g. if g \<in> set (drop k (currentFiles s)) then None else d g)"
      by (auto simp: dk dr s1_def fun_eq_iff)
    have stop2: "excess \<le> r + held_bytes d (drop k (currentFiles s)) \<or> k = 1"
      using stop by (simp add: hk hd algebra_simps)
    have "1 \<le> k \<and> k \<le> Suc (Suc j)" using k by simp
    then show ?thesis
      using res cf t tw2 fc dk2 stop2 l unfolding d_def by (intro exI [of _ k] exI [of _ s']) simp
  qed
qed


lemma sto_io_fields:
  "currentFiles (fst (sto_io env s msgs)) = currentFiles s \<and>
   totalWritten (fst (sto_io env s msgs)) = totalWritten s \<and>
   fileCounter (fst (sto_io env s msgs)) = fileCounter s"
  by (simp add: sto_io_def Let_def)

lemma sto_io_disk:
  "currentFiles s \<noteq> [] \<Longrightarrow>
   disk (fst (sto_io env s msgs)) =
     appendToFile (appended env) (currentFiles s ! (unix_now env mod length (currentFiles s))) 1024 (disk s)"
  by (simp add: sto_io_def Let_def)

lemma sto_io_msgs:
  "snd (sto_io env s msgs) = msgs @ (if currentFiles s = [] then [] else [StoIO (length (currentFiles s))])"
  by (simp add: sto_io_def Let_def)

lemma appendToFile_other: "g \<noteq> f \<Longrightarrow> appendToFile k f n d g = d g"
  by (simp add: appendToFile_def split: option.splits)

lemma appendToFile_held:
  assumes "distinct fs" and "present_in d fs" and "f \<in> set fs"
  shows "held_bytes (appendToFile k f n d) fs = held_bytes d fs + int (min k n)"
proof -
  obtain sz where sz: "d f = Some sz" "file_size d f = sz"
    using present_in_file [OF assms(2,3)] by blast
  then have "appendToFile k f n d = d(f \<mapsto> sz + int (min k n))"
    by (simp add: appendToFile_def)
  then show ?thesis
    using held_bytes_upd_in [OF assms(1,3), of d "sz + int (min k n)"] sz(2) by simp
qed

lemma sto_io_drift:
  assumes "currentFiles s \<noteq> []" and "distinct (currentFiles s)"
    and "present_in (disk s) (currentFiles s)"
  shows "sto_drift (fst (sto_io env s msgs)) = sto_drift s + int (min (appended env) 1024)"
proof -
  have "currentFiles s ! (unix_now env mod length (currentFiles s)) \<in> set (currentFiles s)"
    using assms(1) by simp
  then show ?thesis
    unfolding sto_drift_def sto_io_disk [OF assms(1)]
    using appendToFile_held [OF assms(2,3)] sto_io_fields [of env s msgs] by simp
qed

lemma sto_tick_exclusive:
  "sto_tick percent env s = (s', out) \<Longrightarrow> \<not> (list_ex sto_grows out \<and> list_ex sto_shrinks out)"
  by (auto simp: sto_tick_def sto_io_def Let_def split: sum.splits if_splits prod.splits bool.splits)

lemma sto_tick_grow:
  assumes calc: "calculatePercentageSize_storage percent (free_space env) = Inr target"
    and more: "totalWritten s < target" and range: "target - totalWritten s < 2 ^ 63"
    and ok: "write_res env = WriteOk"
  shows "\<exists>s'. sto_tick percent env s =
           (s', [StoIncreased (target - totalWritten s) target, StoIO (Suc (length (currentFiles s)))]) \<and>
         currentFiles s' = currentFiles s @ [fileCounter s] \<and>
         totalWritten s' = target \<and>
         fileCounter s' = Suc (fileCounter s) \<and>
         disk s' = appendToFile (appended env)
                     ((currentFiles s @ [fileCounter s]) ! (unix_now env mod Suc (length (currentFiles s))))
                     1024 ((disk s)(fileCounter s \<mapsto> target - totalWritten s))"
proof -
  have t: "0 < target" "target < 2 ^ 63" using calc_storage_Inr [OF calc] by simp_all
  have add: "int64 (target - totalWritten s) = target - totalWritten s"
    using more range by (intro int64_id) (simp add: is_int64_def)
  have tt: "int64 target = target" using t by (intro int64_id) (simp add: is_int64_def)
  define s1 where "s1 = s\<lparr>disk := (disk s)(fileCounter s \<mapsto> target - totalWritten s),
      currentFiles := currentFiles s @ [fileCounter s],
      totalWritten := target, fileCounter := Suc (fileCounter s)\<rparr>"
  have "sto_tick percent env s = sto_io env s1 [StoIncreased (target - totalWritten s) target]"
    using more by (simp add: sto_tick_def calc Let_def add ok writeFile_ok tt s1_def)
  then have tick: "sto_tick percent env s =
      (fst (sto_io env s1 [StoIncreased (target - totalWritten s) target]),
       [StoIncreased (target - totalWritten s) target, StoIO (Suc (length (currentFiles s)))])"
    using sto_io_msgs [of env s1 "[StoIncreased (target - totalWritten s) target]"]
    by (simp add: prod_eq_iff s1_def)
  have ne: "currentFiles s1 \<noteq> []" by (simp add: s1_def)
  show ?thesis
    using tick sto_io_fields [of env s1] sto_io_disk [OF ne, of env]
    by (intro exI [of _ "fst (sto_io env s1 [StoIncreased (target - totalWritten s) target])"])
       (simp add: s1_def)
qed


lemma sto_tick_shrink:
  assumes wf: "sto_wf s"
    and io: "list_all (\<lambda>f. stat_ok env f \<and> remove_ok env f) (currentFiles s)"
    and calc: "calculatePercentageSize_storage percent (free_space env) = Inr target"
    and less: "target < totalWritten s" and two: "2 \<le> length (currentFiles s)"
  shows "\<exists>s' out k. sto_tick percent env s = (s', out) \<and>
           1 \<le> k \<and> k < length (currentFiles s) \<and>
           currentFiles s' = take k (currentFiles s) \<and>
           totalWritten s' = totalWritten s - held_bytes (disk s) (drop k (currentFiles s)) \<and>
           (totalWritten s' \<le> target \<or> k = 1) \<and>
           target < totalWritten s' + file_size (disk s) (currentFiles s ! k) \<and>
           (\<forall>f\<in>set (drop k (currentFiles s)). disk s' f = None) \<and>
           sto_drift s' = sto_drift s + int (min (appended env) 1024)"
proof -
  define i where "i = length (currentFiles s) - 1"
  define excess where "excess = totalWritten s - target"
  define fs where "fs = currentFiles s"
  define d where "d = disk s"
  have t: "0 < target" using calc_storage_Inr [OF calc] by simp
  have len: "length (currentFiles s) = Suc i" using two by (simp add: i_def)
  have dist: "distinct (currentFiles s)" and pres: "present_in (disk s) (currentFiles s)"
    and lt: "totalWritten s < 2 ^ 63" and hl: "held_bytes (disk s) (currentFiles s) < 2 ^ 63"
    and lo: "- (2 ^ 63) \<le> totalWritten s - held_bytes (disk s) (currentFiles s)"
    using wf by (simp_all add: sto_wf_def sto_present_eq)
  have ex: "int64 (totalWritten s - target) = excess" "0 < excess"
    using t less lt by (simp_all add: excess_def int64_id is_int64_def)
  have hl0: "0 + held_bytes (disk s) (currentFiles s) < 2 ^ 63" using hl by simp
  from delete_loop_spec [OF len dist pres io _ hl0 lt lo, of excess]
  obtain k s1 where k: "1 \<le> k" "k \<le> Suc i"
    and run: "delete_loop env i s 0 excess = (s1, held_bytes d (drop k fs))"
    and cf: "currentFiles s1 = take k fs"
    and tw: "totalWritten s1 = totalWritten s - held_bytes d (drop k fs)"
    and dk: "disk s1 = (\<lambda>f. if f \<in> set (drop k fs) then None else d f)"
    and stop: "excess \<le> held_bytes d (drop k fs) \<or> k = 1"
    and last: "k < Suc i \<longrightarrow> held_bytes d (drop (Suc k) fs) < excess"
    unfolding fs_def d_def by auto
  have klt: "k < Suc i"
  proof (rule ccontr)
    assume "\<not> k < Suc i"
    with k have "k = length fs" by (simp add: len fs_def)
    with stop two ex(2) show False by (auto simp: held_bytes_Nil fs_def)
  qed
  with last have l: "held_bytes d (drop (Suc k) fs) < excess" by simp
  have dr: "drop k fs = fs ! k # drop (Suc k) fs"
    using klt len by (simp add: Cons_nth_drop_Suc fs_def)
  have disj: "set (take k fs) \<inter> set (drop k fs) = {}"
    using dist by (metis append_take_drop_id distinct_append fs_def)
  have ne1: "currentFiles s1 \<noteq> []" using k(1) two by (auto simp: cf fs_def)
  have dist1: "distinct (currentFiles s1)" using dist by (simp add: cf fs_def)
  have same: "disk s1 f = d f" if "f \<in> set (take k fs)" for f
    using that disj by (auto simp: dk)
  have pres1: "present_in (disk s1) (currentFiles s1)"
    using pres unfolding present_in_def cf list_all_iff fs_def [symmetric] d_def [symmetric]
    by (auto simp: same dest: in_set_takeD)
  have held1: "held_bytes (disk s1) (take k fs) = held_bytes d (take k fs)"
    unfolding held_bytes_def by (rule arg_cong [where f = sum_list]) (simp add: file_size_def same)
  have split: "held_bytes d (take k fs) + held_bytes d (drop k fs) = held_bytes d fs"
    by (simp only: held_bytes_append [symmetric] append_take_drop_id)
  have ds: "sto_drift s = held_bytes d fs - totalWritten s"
    by (simp add: sto_drift_def fs_def d_def)
  have "sto_drift s1 = held_bytes (disk s1) (take k fs) - totalWritten s1"
    by (simp add: sto_drift_def cf)
  then have drift1: "sto_drift s1 = sto_drift s"
    using split by (simp add: ds tw held1)
  define out where "out = (if 0 < held_bytes d (drop k fs)
      then [StoDecreased (held_bytes d (drop k fs)) (totalWritten s1)] else [])"
  have "sto_tick percent env s =
      (case delete_loop env i s 0 excess of
         (s', deletedSize) \<Rightarrow>
           sto_io env s' (if 0 < deletedSize then [StoDecreased deletedSize (totalWritten s')] else []))"
    using less two by (simp add: sto_tick_def calc Let_def ex i_def)
  also have "\<dots> = sto_io env s1 out" by (simp add: run out_def)
  finally have tick: "sto_tick percent env s = (fst (sto_io env s1 out), snd (sto_io env s1 out))"
    by simp
  define s' where "s' = fst (sto_io env s1 out)"
  have f': "currentFiles s' = take k fs" "totalWritten s' = totalWritten s - held_bytes d (drop k fs)"
    using sto_io_fields [of env s1 out] by (simp_all add: s'_def cf tw)
  have gone: "disk s' f = None" if "f \<in> set (drop k fs)" for f
  proof -
    have "currentFiles s1 ! (unix_now env mod length (currentFiles s1)) \<in> set (take k fs)"
      using ne1 by (simp add: cf [symmetric])
    with that disj have "f \<noteq> currentFiles s1 ! (unix_now env mod length (currentFiles s1))"
      by auto
    then show ?thesis using that
      by (simp add: s'_def sto_io_disk [OF ne1] appendToFile_other dk)
  qed
  have "totalWritten s' \<le> target \<or> k = 1"
    using stop by (auto simp: f' excess_def)
  moreover have "target < totalWritten s' + file_size d (fs ! k)"
    using l by (simp add: f' dr held_bytes_Cons excess_def)
  moreover have "sto_drift s' = sto_drift s + int (min (appended env) 1024)"
    unfolding s'_def using sto_io_drift [OF ne1 dist1 pres1] drift1 by simp
  ultimately show ?thesis
    using tick k(1) klt len f' gone unfolding s'_def [symmetric] fs_def d_def
    by (intro exI [of _ s'] exI [of _ "snd (sto_io env s1 out)"] exI [of _ k]) simp
qed

lemma sto_tick_error:
  "calculatePercentageSize_storage percent (free_space env) = Inl err \<Longrightarrow>
   sto_tick percent env s = (s, [StoRecalcError err])"
  by (simp add: sto_tick_def)

lemma mem_tick_error:
  "calculatePercentageSize_memory percent (mem_sys env) = Inl err \<Longrightarrow>
   mem_tick percent env s = Some (s, [MemRecalcError err])"
  by (simp add: mem_tick_def)

lemma sto_tick_keep:
  assumes calc: "calculatePercentageSize_storage percent (free_space env) = Inr target"
    and "\<not> totalWritten s < target"
    and "\<not> (target < totalWritten s \<and> 1 < length (currentFiles s))"
  shows "sto_tick percent env s = sto_io env s []"
  using assms by (auto simp: sto_tick_def Let_def)

lemma sto_wf_fresh: "sto_wf s \<Longrightarrow> fileCounter s \<notin> set (currentFiles s)"
  by (auto simp: sto_wf_def list_all_iff)

lemma sto_tick_drift:
  assumes wf: "sto_wf s" and io: "io_ok env s"
    and calc: "calculatePercentageSize_storage percent (free_space env) = Inr target"
    and range: "target - totalWritten s < 2 ^ 63"
  shows "sto_drift (fst (sto_tick percent env s)) = sto_drift s + int (min (appended env) 1024)"
proof -
  have ne: "currentFiles s \<noteq> []" and dist: "distinct (currentFiles s)"
    and pres: "present_in (disk s) (currentFiles s)"
    using wf by (simp_all add: sto_wf_def sto_present_eq)
  have ok: "write_res env = WriteOk"
    and io': "list_all (\<lambda>f. stat_ok env f \<and> remove_ok env f) (currentFiles s)"
    using io by (simp_all add: io_ok_def)
  consider (grow) "totalWritten s < target"
    | (shrink) "target < totalWritten s" "2 \<le> length (currentFiles s)"
    | (keep) "\<not> totalWritten s < target" "\<not> (target < totalWritten s \<and> 1 < length (currentFiles s))"
    by fastforce
  then show ?thesis
  proof cases
    case grow
    define c where "c = fileCounter s"
    define add where "add = target - totalWritten s"
    define d1 where "d1 = (disk s)(c \<mapsto> add)"
    define fs1 where "fs1 = currentFiles s @ [c]"
    have fresh: "c \<notin> set (currentFiles s)" using sto_wf_fresh [OF wf] by (simp add: c_def)
    have addpos: "0 \<le> add" using grow by (simp add: add_def)
    from sto_tick_grow [OF calc grow range ok]
    obtain s' where s': "fst (sto_tick percent env s) = s'"
      and cf: "currentFiles s' = fs1" and tw: "totalWritten s' = target"
      and dk: "disk s' = appendToFile (appended env) (fs1 ! (unix_now env mod Suc (length (currentFiles s)))) 1024 d1"
      unfolding c_def add_def d1_def fs1_def by auto
    have dist1: "distinct fs1" using dist fresh by (simp add: fs1_def)
    have h1: "held_bytes d1 fs1 = held_bytes (disk s) (currentFiles s) + add"
      using fresh by (simp add: fs1_def d1_def held_bytes_append held_bytes_single
          held_bytes_upd_other file_size_upd_same del: fun_upd_apply)
    have "present_in d1 (currentFiles s)"
      using pres fresh by (simp add: d1_def present_in_upd_other del: fun_upd_apply)
    then have pres1: "present_in d1 fs1"
      using addpos by (simp add: fs1_def present_in_def d1_def)
    have "fs1 ! (unix_now env mod Suc (length (currentFiles s))) \<in> set fs1"
      by (intro nth_mem) (simp add: fs1_def)
    then have "held_bytes (disk s') fs1 = held_bytes d1 fs1 + int (min (appended env) 1024)"
      unfolding dk by (rule appendToFile_held [OF dist1 pres1])
    then show ?thesis
      by (simp add: s' sto_drift_def cf tw h1 add_def)
  next
    case shrink
    from sto_tick_shrink [OF wf io' calc shrink]
    show ?thesis by auto
  next
    case keep
    show ?thesis
      unfolding sto_tick_keep [OF calc keep] by (rule sto_io_drift [OF ne dist pres])
  qed
qed

lemma delete_loop_files:
  "i < length (currentFiles s) \<Longrightarrow>
   \<exists>k. 1 \<le> k \<and> currentFiles (fst (delete_loop env i s r e)) = take k (currentFiles s)"
proof (induction i arbitrary: s r)
  case 0
  then have "1 \<le> length (currentFiles s)" by linarith
  then show ?case by (intro exI [of _ "length (currentFiles s)"]) simp
next
  case (Suc j)
  have same: "\<exists>k. 1 \<le> k \<and> currentFiles (fst (delete_loop env j s r e)) = take k (currentFiles s)"
    using Suc.prems by (intro Suc.IH) simp
  show ?case
  proof (cases "r < e")
    case False
    have "1 \<le> length (currentFiles s)" using Suc.prems by linarith
    then show ?thesis using False by (intro exI [of _ "length (currentFiles s)"]) simp
  next
    case True
    show ?thesis
    proof (cases "os_Stat env (disk s) (currentFiles s ! Suc j)")
      case None
      with True same show ?thesis by (simp add: Let_def)
    next
      case (Some n)
      show ?thesis
      proof (cases "remove_ok env (currentFiles s ! Suc j)")
        case False
        with True Some same show ?thesis by (simp add: Let_def)
      next
        case ok: True
        define s1 where "s1 = s\<lparr>disk := (disk s)(currentFiles s ! Suc j := None),
            totalWritten := int64 (totalWritten s - n),
            currentFiles := take (Suc j) (currentFiles s)\<rparr>"
        have "j < length (currentFiles s1)" using Suc.prems by (simp add: s1_def)
        then obtain k where k: "1 \<le> k"
          "currentFiles (fst (delete_loop env j s1 (int64 (r + n)) e)) = take k (currentFiles s1)"
          using Suc.IH [of s1 "int64 (r + n)"] by blast
        have "take k (currentFiles s1) = take (min k (Suc j)) (currentFiles s)"
          by (simp add: s1_def min.commute)
        moreover have "1 \<le> min k (Suc j)" using k(1) by simp
        ultimately show ?thesis
          using True Some ok k(2) unfolding s1_def
          by (intro exI [of _ "min k (Suc j)"]) (simp add: Let_def)
      qed
    qed
  qed
qed

lemma sto_tick_files:
  assumes "currentFiles s \<noteq> []"
  shows "currentFiles (fst (sto_tick percent env s)) \<noteq> [] \<and>
         hd (currentFiles (fst (sto_tick percent env s))) = hd (currentFiles s)"
proof (cases "calculatePercentageSize_storage percent (free_space env)")
  case (Inl err)
  then show ?thesis using assms by (simp add: sto_tick_error)
next
  case (Inr target)
  consider (grow) "totalWritten s < target"
    | (shrink) "\<not> totalWritten s < target" "target < totalWritten s \<and> 1 < length (currentFiles s)"
    | (keep) "\<not> totalWritten s < target" "\<not> (target < totalWritten s \<and> 1 < length (currentFiles s))"
    by fastforce
  then show ?thesis
  proof cases
    case grow
    then show ?thesis using assms sto_io_fields
      by (auto simp: sto_tick_def Inr Let_def split: prod.splits bool.splits)
  next
    case shrink
    define i where "i = length (currentFiles s) - 1"
    define e where "e = int64 (totalWritten s - target)"
    have "i < length (currentFiles s)" using shrink unfolding i_def by linarith
    then obtain k where k: "1 \<le> k"
      "currentFiles (fst (delete_loop env i s 0 e)) = take k (currentFiles s)"
      using delete_loop_files by blast
    have "sto_tick percent env s =
      (case delete_loop env i s 0 e of
         (s', deletedSize) \<Rightarrow>
           sto_io env s' (if 0 < deletedSize then [StoDecreased deletedSize (totalWritten s')] else []))"
      using shrink by (simp add: sto_tick_def Inr Let_def i_def e_def)
    then have "currentFiles (fst (sto_tick percent env s)) = take k (currentFiles s)"
      using k(2) sto_io_fields by (simp split: prod.splits)
    then show ?thesis using k(1) assms by (simp add: hd_take)
  next
    case keep
    then show ?thesis using assms sto_io_fields by (simp add: sto_tick_keep [OF Inr])
  qed
qed

lemma sto_init_files:
  assumes "sto_init percent env d = Inr s"
  shows "currentFiles s = [0] \<and> totalWritten s = held_bytes (disk s) (currentFiles s)"
proof -
  from assms obtain t where calc: "calculatePercentageSize_storage percent (free_space env) = Inr t"
    by (auto simp: sto_init_def split: sum.splits)
  have "0 < t" using calc_storage_Inr [OF calc] by simp
  then show ?thesis using assms
    by (auto simp: sto_init_def calc writeFile_def writeFile_loop_done held_bytes_def file_size_def
        split: write_result.splits)
qed

lemma sto_trace_files:
  "currentFiles s \<noteq> [] \<Longrightarrow> x \<in> set (sto_trace percent envs s) \<Longrightarrow>
     currentFiles x \<noteq> [] \<and> hd (currentFiles x) = hd (currentFiles s)"
proof (induction envs arbitrary: s)
  case Nil
  then show ?case by simp
next
  case (Cons env envs)
  show ?case
  proof (cases "x = s")
    case True
    with Cons.prems show ?thesis by simp
  next
    case False
    with Cons.prems(2) have x: "x \<in> set (sto_trace percent envs (fst (sto_tick percent env s)))"
      by simp
    from sto_tick_files [OF Cons.prems(1), of percent env] Cons.IH [OF _ x]
    show ?thesis by simp
  qed
qed


section \<open>Concrete targets\<close>

text \<open>
  The targets of a few concrete calls, each computed step by step as the code does:
  the conversion of the free bytes to \<^verbatim>\<open>float64\<close>, the product with the percentage,
  the quotient by \<^verbatim>\<open>100.0\<close>, the first truncation, the product with the safety factor
  and the second truncation.  Every rounding is checked against the integer
  characterisation of \<open>nearest_f64\<close>.
\<close>

lemma f64_of_ratio_steps:
  assumes "a \<noteq> 0" and "floor_log2 a b = l" and "- 1022 \<le> l" and "l \<le> 1022"
    and "p = l - 52"
    and "(if 0 \<le> p then round_half_even a (b * 2 ^ nat p)
          else round_half_even (a * 2 ^ nat (- p)) b) = m"
  shows "f64_of_ratio negative a b = Fin (if negative then - int m else int m) p"
proof -
  have "max l (- 1022) - 52 = p" using assms(3,5) by simp
  hence "nearest_f64 a b = (m, p)"
    using assms(1,6) by (simp add: nearest_f64_def assms(2) Let_def split del: if_split)
  moreover have "\<not> (971 < p \<or> (p = 971 \<and> (2::nat) ^ 53 \<le> m))"
    using assms(4,5) by simp
  ultimately show ?thesis
    unfolding f64_of_ratio_def by simp
qed

lemma float_100_eq: "float_100 = Fin 7036874417766400 (- 46)"
proof -
  have r: "f64_of_ratio False 100 1 = Fin (if False then - int 7036874417766400 else int 7036874417766400) (- 46)"
    by (rule f64_of_ratio_steps [where l = "6"])
       (simp_all add: floor_log2_def bitlen.simps round_half_even_def Let_def)
  show ?thesis using r by (simp add: float_100_def)
qed

lemma float_0_95_eq: "float_0_95 = Fin 8556839292003942 (- 53)"
proof -
  have r: "f64_of_ratio False 95 100 = Fin (if False then - int 8556839292003942 else int 8556839292003942) (- 53)"
    by (rule f64_of_ratio_steps [where l = "- 1"])
       (simp_all add: floor_log2_def bitlen.simps round_half_even_def Let_def)
  show ?thesis using r by (simp add: float_0_95_def)
qed

lemma float_0_90_eq: "float_0_90 = Fin 8106479329266893 (- 53)"
proof -
  have r: "f64_of_ratio False 90 100 = Fin (if False then - int 8106479329266893 else int 8106479329266893) (- 53)"
    by (rule f64_of_ratio_steps [where l = "- 1"])
       (simp_all add: floor_log2_def bitlen.simps round_half_even_def Let_def)
  show ?thesis using r by (simp add: float_0_90_def)
qed

lemma float64_of_int64_10: "float64_of_int64 10 = Fin 5629499534213120 (- 49)"
proof -
  have r: "f64_of_ratio False 10 1 = Fin (if False then - int 5629499534213120 else int 5629499534213120) (- 49)"
    by (rule f64_of_ratio_steps [where l = "3"])
       (simp_all add: floor_log2_def bitlen.simps round_half_even_def Let_def)
  show ?thesis using r by (simp add: float64_of_int64_def)
qed

lemma f64_M1_a: "float64_of_int64 127 = Fin 8936830510563328 (- 46)"
proof -
  have r: "f64_of_ratio False 127 1 = Fin (if False then - int 8936830510563328 else int 8936830510563328) (- 46)"
    by (rule f64_of_ratio_steps [where l = "6"])
       (simp_all add: floor_log2_def bitlen.simps round_half_even_def Let_def)
  show ?thesis using r by (simp add: float64_of_int64_def)
qed

lemma f64_M1_b: "f64_mul (Fin 8936830510563328 (- 46)) (Fin 7036874417766400 (- 46)) = Fin 6981898836377600 (- 39)"
proof -
  have r: "f64_of_ratio False 62887353995697317964875510579200 4951760157141521099596496896 = Fin (if False then - int 6981898836377600 else int 6981898836377600) (- 39)"
    by (rule f64_of_ratio_steps [where l = "13"])
       (simp_all add: floor_log2_def bitlen.simps round_half_even_def Let_def)
  show ?thesis using r by (simp)
qed

lemma f64_M1_c: "f64_div (Fin 6981898836377600 (- 39)) (Fin 7036874417766400 (- 46)) = Fin 8936830510563328 (- 46)"
proof -
  have r: "f64_of_ratio False 893683051056332800 7036874417766400 = Fin (if False then - int 8936830510563328 else int 8936830510563328) (- 46)"
    by (rule f64_of_ratio_steps [where l = "6"])
       (simp_all add: floor_log2_def bitlen.simps round_half_even_def Let_def)
  show ?thesis using r by (simp)
qed

lemma f64_M1_t1: "int64_of_f64 (Fin 8936830510563328 (- 46)) = 127"
  by (simp add: trunc_f64_def is_int64_def)

lemma f64_M1_e: "f64_mul (Fin 8936830510563328 (- 46)) (Fin 8556839292003942 (- 53)) = Fin 8489988985035161 (- 46)"
proof -
  have r: "f64_of_ratio False 76471022458767935070556416638976 633825300114114700748351602688 = Fin (if False then - int 8489988985035161 else int 8489988985035161) (- 46)"
    by (rule f64_of_ratio_steps [where l = "6"])
       (simp_all add: floor_log2_def bitlen.simps round_half_even_def Let_def)
  show ?thesis using r by (simp)
qed

lemma f64_M1_t2: "int64_of_f64 (Fin 8489988985035161 (- 46)) = 120"
  by (simp add: trunc_f64_def is_int64_def)

lemma calc_M1: "calculatePercentageSize_memory (float64_of_int64 100) 8589934465 = Inr 120"
  by (simp add: calculatePercentageSize_memory_def Let_def int64_def float64_of_int64_100 float_100_eq float_0_95_eq
        f64_M1_a f64_M1_b f64_M1_c f64_M1_t1 f64_M1_e f64_M1_t2
      del: int64_of_f64.simps f64_mul.simps f64_div.simps)

lemma f64_S1_a: "float64_of_int64 134 = Fin 4714705859903488 (- 45)"
proof -
  have r: "f64_of_ratio False 134 1 = Fin (if False then - int 4714705859903488 else int 4714705859903488) (- 45)"
    by (rule f64_of_ratio_steps [where l = "7"])
       (simp_all add: floor_log2_def bitlen.simps round_half_even_def Let_def)
  show ?thesis using r by (simp add: float64_of_int64_def)
qed

lemma f64_S1_b: "f64_mul (Fin 4714705859903488 (- 45)) (Fin 7036874417766400 (- 46)) = Fin 7366727906099200 (- 39)"
proof -
  have r: "f64_of_ratio False 33176793052848191367296529203200 2475880078570760549798248448 = Fin (if False then - int 7366727906099200 else int 7366727906099200) (- 39)"
    by (rule f64_of_ratio_steps [where l = "13"])
       (simp_all add: floor_log2_def bitlen.simps round_half_even_def Let_def)
  show ?thesis using r by (simp)
qed

lemma f64_S1_c: "f64_div (Fin 7366727906099200 (- 39)) (Fin 7036874417766400 (- 46)) = Fin 4714705859903488 (- 45)"
proof -
  have r: "f64_of_ratio False 942941171980697600 7036874417766400 = Fin (if False then - int 4714705859903488 else int 4714705859903488) (- 45)"
    by (rule f64_of_ratio_steps [where l = "7"])
       (simp_all add: floor_log2_def bitlen.simps round_half_even_def Let_def)
  show ?thesis using r by (simp)
qed

lemma f64_S1_t1: "int64_of_f64 (Fin 4714705859903488 (- 45)) = 134"
  by (simp add: trunc_f64_def is_int64_def)

lemma f64_S1_e: "f64_mul (Fin 4714705859903488 (- 45)) (Fin 8106479329266893 (- 53)) = Fin 8486470547826279 (- 46)"
proof -
  have r: "f64_of_ratio False 38219665596881117398066773622784 316912650057057350374175801344 = Fin (if False then - int 8486470547826279 else int 8486470547826279) (- 46)"
    by (rule f64_of_ratio_steps [where l = "6"])
       (simp_all add: floor_log2_def bitlen.simps round_half_even_def Let_def)
  show ?thesis using r by (simp)
qed

lemma f64_S1_t2: "int64_of_f64 (Fin 8486470547826279 (- 46)) = 120"
  by (simp add: trunc_f64_def is_int64_def)

lemma calc_S1: "calculatePercentageSize_storage (float64_of_int64 100) (Inr 134) = Inr 120"
  by (simp add: calculatePercentageSize_storage_def Let_def float64_of_int64_100 float_100_eq float_0_90_eq
        f64_S1_a f64_S1_b f64_S1_c f64_S1_t1 f64_S1_e f64_S1_t2
      del: int64_of_f64.simps f64_mul.simps f64_div.simps)

lemma f64_M3_a: "float64_of_int64 1 = Fin 4503599627370496 (- 52)"
proof -
  have r: "f64_of_ratio False 1 1 = Fin (if False then - int 4503599627370496 else int 4503599627370496) (- 52)"
    by (rule f64_of_ratio_steps [where l = "0"])
       (simp_all add: floor_log2_def bitlen.simps round_half_even_def Let_def)
  show ?thesis using r by (simp add: float64_of_int64_def)
qed

lemma f64_M3_b: "f64_mul (Fin 4503599627370496 (- 52)) (Fin 7036874417766400 (- 46)) = Fin 7036874417766400 (- 46)"
proof -
  have r: "f64_of_ratio False 31691265005705735037417580134400 316912650057057350374175801344 = Fin (if False then - int 7036874417766400 else int 7036874417766400) (- 46)"
    by (rule f64_of_ratio_steps [where l = "6"])
       (simp_all add: floor_log2_def bitlen.simps round_half_even_def Let_def)
  show ?thesis using r by (simp)
qed

lemma f64_M3_c: "f64_div (Fin 7036874417766400 (- 46)) (Fin 7036874417766400 (- 46)) = Fin 4503599627370496 (- 52)"
proof -
  have r: "f64_of_ratio False 7036874417766400 7036874417766400 = Fin (if False then - int 4503599627370496 else int 4503599627370496) (- 52)"
    by (rule f64_of_ratio_steps [where l = "0"])
       (simp_all add: floor_log2_def bitlen.simps round_half_even_def Let_def)
  show ?thesis using r by (simp)
qed

lemma f64_M3_t1: "int64_of_f64 (Fin 4503599627370496 (- 52)) = 1"
  by (simp add: trunc_f64_def is_int64_def)

lemma f64_M3_e: "f64_mul (Fin 4503599627370496 (- 52)) (Fin 8556839292003942 (- 53)) = Fin 8556839292003942 (- 53)"
proof -
  have r: "f64_of_ratio False 38536578246938172004059926495232 40564819207303340847894502572032 = Fin (if False then - int 8556839292003942 else int 8556839292003942) (- 53)"
    by (rule f64_of_ratio_steps [where l = "- 1"])
       (simp_all add: floor_log2_def bitlen.simps round_half_even_def Let_def)
  show ?thesis using r by (simp)
qed

lemma f64_M3_t2: "int64_of_f64 (Fin 8556839292003942 (- 53)) = 0"
  by (simp add: trunc_f64_def is_int64_def)

lemma calc_M3: "calculatePercentageSize_memory (float64_of_int64 100) 8589934591 = Inl InvalidMemorySize"
  by (simp add: calculatePercentageSize_memory_def Let_def int64_def float64_of_int64_100 float_100_eq float_0_95_eq
        f64_M3_a f64_M3_b f64_M3_c f64_M3_t1 f64_M3_e f64_M3_t2
      del: int64_of_f64.simps f64_mul.simps f64_div.simps)

lemma f64_S3_a: "float64_of_int64 219 = Fin 7705377487454208 (- 45)"
proof -
  have r: "f64_of_ratio False 219 1 = Fin (if False then - int 7705377487454208 else int 7705377487454208) (- 45)"
    by (rule f64_of_ratio_steps [where l = "7"])
       (simp_all add: floor_log2_def bitlen.simps round_half_even_def Let_def)
  show ?thesis using r by (simp add: float64_of_int64_def)
qed

lemma f64_S3_b: "f64_mul (Fin 7705377487454208 (- 45)) (Fin 5629499534213120 (- 49)) = Fin 4815860929658880 (- 41)"
proof -
  have r: "f64_of_ratio False 43377418976559724832465312808960 19807040628566084398385987584 = Fin (if False then - int 4815860929658880 else int 4815860929658880) (- 41)"
    by (rule f64_of_ratio_steps [where l = "11"])
       (simp_all add: floor_log2_def bitlen.simps round_half_even_def Let_def)
  show ?thesis using r by (simp)
qed

lemma f64_S3_c: "f64_div (Fin 4815860929658880 (- 41)) (Fin 7036874417766400 (- 46)) = Fin 6164301989963366 (- 48)"
proof -
  have r: "f64_of_ratio False 154107549749084160 7036874417766400 = Fin (if False then - int 6164301989963366 else int 6164301989963366) (- 48)"
    by (rule f64_of_ratio_steps [where l = "4"])
       (simp_all add: floor_log2_def bitlen.simps round_half_even_def Let_def)
  show ?thesis using r by (simp)
qed

lemma f64_S3_t1: "int64_of_f64 (Fin 6164301989963366 (- 48)) = 21"
  by (simp add: trunc_f64_def is_int64_def)

lemma f64_S3_d: "float64_of_int64 21 = Fin 5910974510923776 (- 48)"
proof -
  have r: "f64_of_ratio False 21 1 = Fin (if False then - int 5910974510923776 else int 5910974510923776) (- 48)"
    by (rule f64_of_ratio_steps [where l = "4"])
       (simp_all add: floor_log2_def bitlen.simps round_half_even_def Let_def)
  show ?thesis using r by (simp add: float64_of_int64_def)
qed

lemma f64_S3_e: "f64_mul (Fin 5910974510923776 (- 48)) (Fin 8106479329266893 (- 53)) = Fin 5319877059831399 (- 48)"
proof -
  have r: "f64_of_ratio False 47917192688627072558770283347968 2535301200456458802993406410752 = Fin (if False then - int 5319877059831399 else int 5319877059831399) (- 48)"
    by (rule f64_of_ratio_steps [where l = "4"])
       (simp_all add: floor_log2_def bitlen.simps round_half_even_def Let_def)
  show ?thesis using r by (simp)
qed

lemma f64_S3_t2: "int64_of_f64 (Fin 5319877059831399 (- 48)) = 18"
  by (simp add: trunc_f64_def is_int64_def)

lemma calc_S3: "calculatePercentageSize_storage (float64_of_int64 10) (Inr 219) = Inr 18"
  by (simp add: calculatePercentageSize_storage_def Let_def float64_of_int64_10 float_100_eq float_0_90_eq
        f64_S3_a f64_S3_b f64_S3_c f64_S3_t1 f64_S3_d f64_S3_e f64_S3_t2
      del: int64_of_f64.simps f64_mul.simps f64_div.simps)

lemma f64_M5_a: "float64_of_int64 8573157376 = Fin 8989607068696576 (- 20)"
proof -
  have r: "f64_of_ratio False 8573157376 1 = Fin (if False then - int 8989607068696576 else int 8989607068696576) (- 20)"
    by (rule f64_of_ratio_steps [where l = "32"])
       (simp_all add: floor_log2_def bitlen.simps round_half_even_def Let_def)
  show ?thesis using r by (simp add: float64_of_int64_def)
qed

lemma f64_M5_b: "f64_mul (Fin 8989607068696576 (- 20)) (Fin 7036874417766400 (- 46)) = Fin 7023130522419200 (- 13)"
proof -
  have r: "f64_of_ratio False 63258736007482932047345247846400 73786976294838206464 = Fin (if False then - int 7023130522419200 else int 7023130522419200) (- 13)"
    by (rule f64_of_ratio_steps [where l = "39"])
       (simp_all add: floor_log2_def bitlen.simps round_half_even_def Let_def)
  show ?thesis using r by (simp)
qed

lemma f64_M5_c: "f64_div (Fin 7023130522419200 (- 13)) (Fin 7036874417766400 (- 46)) = Fin 8989607068696576 (- 20)"
proof -
  have r: "f64_of_ratio False 60328231818659717604966400 7036874417766400 = Fin (if False then - int 8989607068696576 else int 8989607068696576) (- 20)"
    by (rule f64_of_ratio_steps [where l = "32"])
       (simp_all add: floor_log2_def bitlen.simps round_half_even_def Let_def)
  show ?thesis using r by (simp)
qed

lemma f64_M5_t1: "int64_of_f64 (Fin 8989607068696576 (- 20)) = 8573157376"
  by (simp add: trunc_f64_def is_int64_def)

lemma f64_M5_e: "f64_mul (Fin 8989607068696576 (- 20)) (Fin 8556839292003942 (- 53)) = Fin 8540126715261747 (- 20)"
proof -
  have r: "f64_of_ratio False 76922622985099241773728993902592 9444732965739290427392 = Fin (if False then - int 8540126715261747 else int 8540126715261747) (- 20)"
    by (rule f64_of_ratio_steps [where l = "32"])
       (simp_all add: floor_log2_def bitlen.simps round_half_even_def Let_def)
  show ?thesis using r by (simp)
qed

lemma f64_M5_t2: "int64_of_f64 (Fin 8540126715261747 (- 20)) = 8144499507"
  by (simp add: trunc_f64_def is_int64_def)

lemma calc_M5: "calculatePercentageSize_memory (float64_of_int64 100) 16777216 = Inr 8144499507"
  by (simp add: calculatePercentageSize_memory_def Let_def int64_def float64_of_int64_100 float_100_eq float_0_95_eq
        f64_M5_a f64_M5_b f64_M5_c f64_M5_t1 f64_M5_e f64_M5_t2
      del: int64_of_f64.simps f64_mul.simps f64_div.simps)

section \<open>Shrinking ticks\<close>

lemma mem_tick_tail_shrink:
  assumes inv: "mem_inv s"
    and calc: "calculatePercentageSize_memory percent (mem_sys env) = Inr target"
    and less: "target < totalAllocated s" and two: "2 \<le> length (buffers s)"
  shows "case mem_tick percent env s of
           None \<Rightarrow> False
         | Some (s', out) \<Rightarrow>
             tail_shrink (buffers s) (\<lambda>b. b) (totalAllocated s) target (buffers s') (totalAllocated s') \<and>
             totalAllocated s' = sum_list (buffers s') \<and>
             out = [MemDecreased (totalAllocated s - totalAllocated s') (totalAllocated s'),
                    MemStats (totalAllocated s')]"
proof -
  from mem_tick_shrink [OF inv calc less two] obtain s' k where
    tick: "mem_tick percent env s =
             Some (s', [MemDecreased (totalAllocated s - totalAllocated s') (totalAllocated s'),
                        MemStats (totalAllocated s')])"
    and k: "1 \<le> k" "k < length (buffers s)" "buffers s' = take k (buffers s)"
    and tot: "totalAllocated s' = sum_list (take k (buffers s))"
      "totalAllocated s - totalAllocated s' = sum_list (drop k (buffers s))"
    and stop: "totalAllocated s' \<le> target \<or> k = 1"
      "target < totalAllocated s' + buffers s ! k"
    by blast
  have len: "length (buffers s') = k" using k by simp
  have "tail_shrink (buffers s) (\<lambda>b. b) (totalAllocated s) target (buffers s') (totalAllocated s')"
    unfolding tail_shrink_def Let_def len using k tot stop by auto
  then show ?thesis using tick tot(1) k(3) by simp
qed

lemma sto_tick_tail_shrink:
  assumes wf: "sto_wf s"
    and io: "list_all (\<lambda>f. stat_ok env f \<and> remove_ok env f) (currentFiles s)"
    and calc: "calculatePercentageSize_storage percent (free_space env) = Inr target"
    and less: "target < totalWritten s" and two: "2 \<le> length (currentFiles s)"
  shows "case sto_tick percent env s of
           (s', out) \<Rightarrow>
             tail_shrink (currentFiles s) (file_size (disk s)) (totalWritten s) target
               (currentFiles s') (totalWritten s') \<and>
             list_all (\<lambda>f. disk s' f = None) (drop (length (currentFiles s')) (currentFiles s))"
proof -
  from sto_tick_shrink [OF wf io calc less two] obtain s' out k where
    tick: "sto_tick percent env s = (s', out)"
    and k: "1 \<le> k" "k < length (currentFiles s)" "currentFiles s' = take k (currentFiles s)"
    and tot: "totalWritten s' = totalWritten s - held_bytes (disk s) (drop k (currentFiles s))"
    and stop: "totalWritten s' \<le> target \<or> k = 1"
      "target < totalWritten s' + file_size (disk s) (currentFiles s ! k)"
    and gone: "\<forall>f\<in>set (drop k (currentFiles s)). disk s' f = None"
    by blast
  have len: "length (currentFiles s') = k" using k by simp
  have "tail_shrink (currentFiles s) (file_size (disk s)) (totalWritten s) target
          (currentFiles s') (totalWritten s')"
    unfolding tail_shrink_def Let_def len using k tot stop by (auto simp: held_bytes_def)
  moreover have "list_all (\<lambda>f. disk s' f = None) (drop (length (currentFiles s')) (currentFiles s))"
    unfolding len using gone by (simp add: list_all_iff)
  ultimately show ?thesis using tick by simp
qed

text \<open>
  C1.  In a tick of a dynamic controller whose recomputed target is below the held total
  while at least two segments are held, segments are removed from the tail, most recent
  first, and their sizes accumulated until the sum reaches \<open>held - target\<close> or only
  segment 0 remains.  After the tick the segment count has decreased by at least one,
  segment 0 remains, and the held total is the former total minus the sizes freed: it is
  at most the target unless only segment 0 remains (it is not kept above the target).
  For the storage controller a segment's size is the size \<^verbatim>\<open>os.Stat\<close> reports for the
  file, and the statement is for a tick where \<^verbatim>\<open>os.Stat\<close> and \<^verbatim>\<open>os.Remove\<close> succeed
  on the held files; the files removed are gone from the directory.
\<close>

theorem shrink_tick:
  "(mem_inv ms \<and> calculatePercentageSize_memory mp (mem_sys menv) = Inr mt \<and>
    mt < totalAllocated ms \<and> 2 \<le> length (buffers ms) \<longrightarrow>
      (case mem_tick mp menv ms of
         None \<Rightarrow> False
       | Some (ms', out) \<Rightarrow>
           tail_shrink (buffers ms) (\<lambda>b. b) (totalAllocated ms) mt (buffers ms') (totalAllocated ms') \<and>
           totalAllocated ms' = sum_list (buffers ms') \<and>
           out = [MemDecreased (totalAllocated ms - totalAllocated ms') (totalAllocated ms'),
                  MemStats (totalAllocated ms')])) \<and>
   (sto_wf ss \<and> list_all (\<lambda>f. stat_ok senv f \<and> remove_ok senv f) (currentFiles ss) \<and>
    calculatePercentageSize_storage sp (free_space senv) = Inr st \<and>
    st < totalWritten ss \<and> 2 \<le> length (currentFiles ss) \<longrightarrow>
      (case sto_tick sp senv ss of
         (ss', out) \<Rightarrow>
           tail_shrink (currentFiles ss) (file_size (disk ss)) (totalWritten ss) st
             (currentFiles ss') (totalWritten ss') \<and>
           list_all (\<lambda>f. disk ss' f = None) (drop (length (currentFiles ss')) (currentFiles ss))))"
proof (intro conjI impI)
  assume h: "mem_inv ms \<and> calculatePercentageSize_memory mp (mem_sys menv) = Inr mt \<and>
    mt < totalAllocated ms \<and> 2 \<le> length (buffers ms)"
  show "case mem_tick mp menv ms of
         None \<Rightarrow> False
       | Some (ms', out) \<Rightarrow>
           tail_shrink (buffers ms) (\<lambda>b. b) (totalAllocated ms) mt (buffers ms') (totalAllocated ms') \<and>
           totalAllocated ms' = sum_list (buffers ms') \<and>
           out = [MemDecreased (totalAllocated ms - totalAllocated ms') (totalAllocated ms'),
                  MemStats (totalAllocated ms')]"
    by (rule mem_tick_tail_shrink) (use h in simp_all)
next
  assume h: "sto_wf ss \<and> list_all (\<lambda>f. stat_ok senv f \<and> remove_ok senv f) (currentFiles ss) \<and>
    calculatePercentageSize_storage sp (free_space senv) = Inr st \<and>
    st < totalWritten ss \<and> 2 \<le> length (currentFiles ss)"
  show "case sto_tick sp senv ss of
         (ss', out) \<Rightarrow>
           tail_shrink (currentFiles ss) (file_size (disk ss)) (totalWritten ss) st
             (currentFiles ss') (totalWritten ss') \<and>
           list_all (\<lambda>f. disk ss' f = None) (drop (length (currentFiles ss')) (currentFiles ss))"
    by (rule sto_tick_tail_shrink) (use h in simp_all)
qed

lemma mem_tick_shrink_example:
  "mem_tick (float64_of_int64 100) \<lparr>mem_sys = 8589934465, alloc_ok = True\<rparr>
     \<lparr>buffers = [100, 50], totalAllocated = 150\<rparr> =
   Some (\<lparr>buffers = [100], totalAllocated = 100\<rparr>, [MemDecreased 50 100, MemStats 100])"
  by (simp add: mem_tick_def calc_M1 int64_def Let_def)

lemma sto_tick_shrink_example:
  "sto_tick (float64_of_int64 100)
     \<lparr>free_space = Inr 134, write_res = WriteOk, stat_ok = \<lambda>f. True, remove_ok = \<lambda>f. True,
      unix_now = 0, appended = 1024\<rparr>
     \<lparr>currentFiles = [0, 2], totalWritten = 150, fileCounter = 3, disk = [0 \<mapsto> 100, 2 \<mapsto> 50]\<rparr> =
   (\<lparr>currentFiles = [0], totalWritten = 100, fileCounter = 3, disk = [0 \<mapsto> 1124]\<rparr>,
    [StoDecreased 50 100, StoIO 1])"
  by (simp add: sto_tick_def calc_S1 int64_def Let_def os_Stat_def sto_io_def appendToFile_def
        fun_eq_iff)

theorem shrink_tick_witness:
  "mem_inv \<lparr>buffers = [100, 50], totalAllocated = 150\<rparr> \<and>
   calculatePercentageSize_memory (float64_of_int64 100) 8589934465 = Inr 120 \<and>
   mem_tick (float64_of_int64 100) \<lparr>mem_sys = 8589934465, alloc_ok = True\<rparr>
     \<lparr>buffers = [100, 50], totalAllocated = 150\<rparr> =
   Some (\<lparr>buffers = [100], totalAllocated = 100\<rparr>, [MemDecreased 50 100, MemStats 100]) \<and>
   tail_shrink [100, 50] (\<lambda>b. b) 150 120 [100] 100 \<and>
   sto_wf \<lparr>currentFiles = [0, 2], totalWritten = 150, fileCounter = 3, disk = [0 \<mapsto> 100, 2 \<mapsto> 50]\<rparr> \<and>
   calculatePercentageSize_storage (float64_of_int64 100) (Inr 134) = Inr 120 \<and>
   tail_shrink [0, 2] (file_size [0 \<mapsto> 100, 2 \<mapsto> 50]) 150 120 [0] 100"
  using shrink_tick [of "\<lparr>buffers = [100, 50], totalAllocated = 150\<rparr>" "float64_of_int64 100"
      "\<lparr>mem_sys = 8589934465, alloc_ok = True\<rparr>" 120
      "\<lparr>currentFiles = [0, 2], totalWritten = 150, fileCounter = 3, disk = [0 \<mapsto> 100, 2 \<mapsto> 50]\<rparr>"
      "\<lparr>free_space = Inr 134, write_res = WriteOk, stat_ok = \<lambda>f. True, remove_ok = \<lambda>f. True,
        unix_now = 0, appended = 1024\<rparr>" "float64_of_int64 100" 120]
  by (simp add: mem_tick_shrink_example sto_tick_shrink_example calc_M1 calc_S1 mem_inv_def
        sto_wf_def sto_present_def held_bytes_def file_size_def)

theorem shrink_tick_counterexample:
  "mem_inv \<lparr>buffers = [100, 50], totalAllocated = 150\<rparr> \<and>
   calculatePercentageSize_memory (float64_of_int64 100) 8589934465 = Inr 120 \<and>
   mem_tick (float64_of_int64 100) \<lparr>mem_sys = 8589934465, alloc_ok = True\<rparr>
     \<lparr>buffers = [100, 50], totalAllocated = 150\<rparr> =
   Some (\<lparr>buffers = [100], totalAllocated = 100\<rparr>, [MemDecreased 50 100, MemStats 100]) \<and>
   \<not> 120 \<le> totalAllocated \<lparr>buffers = [100], totalAllocated = 100\<rparr>"
  by (simp add: mem_tick_shrink_example calc_M1 mem_inv_def)

section \<open>Growing ticks\<close>

text \<open>
  C2.  In a tick of a dynamic controller whose recomputed target is above the held total
  and whose allocation or write succeeds, exactly one segment of size \<open>target - held\<close> is
  appended, so the held total is the target after the tick and the segment count has
  increased by one; no tick reports both a growth and a shrink.  (For the storage
  controller the difference \<open>target - held\<close> is taken to fit an \<^verbatim>\<open>int64\<close>; the I/O step of
  the same tick then appends to one of the held files.)
\<close>

theorem growth_tick:
  "(mem_inv ms \<and> calculatePercentageSize_memory mp (mem_sys menv) = Inr mt \<and>
    totalAllocated ms < mt \<and> alloc_ok menv \<longrightarrow>
      mem_tick mp menv ms =
        Some (\<lparr>buffers = buffers ms @ [mt - totalAllocated ms], totalAllocated = mt\<rparr>,
              [MemIncreased (mt - totalAllocated ms) mt, MemStats mt])) \<and>
   (calculatePercentageSize_storage sp (free_space senv) = Inr st \<and>
    totalWritten ss < st \<and> st - totalWritten ss < 2 ^ 63 \<and> write_res senv = WriteOk \<longrightarrow>
      (case sto_tick sp senv ss of
         (ss', out) \<Rightarrow>
           currentFiles ss' = currentFiles ss @ [fileCounter ss] \<and>
           totalWritten ss' = st \<and>
           disk ss' = appendToFile (appended senv)
                        ((currentFiles ss @ [fileCounter ss]) !
                           (unix_now senv mod Suc (length (currentFiles ss))))
                        1024 ((disk ss)(fileCounter ss \<mapsto> st - totalWritten ss)) \<and>
           out = [StoIncreased (st - totalWritten ss) st, StoIO (Suc (length (currentFiles ss)))])) \<and>
   (mem_tick mp menv ms = Some (ms', mout) \<longrightarrow>
      \<not> (list_ex mem_grows mout \<and> list_ex mem_shrinks mout)) \<and>
   (sto_tick sp senv ss = (ss', sout) \<longrightarrow>
      \<not> (list_ex sto_grows sout \<and> list_ex sto_shrinks sout))"
proof (intro conjI impI)
  assume h: "mem_inv ms \<and> calculatePercentageSize_memory mp (mem_sys menv) = Inr mt \<and>
    totalAllocated ms < mt \<and> alloc_ok menv"
  show "mem_tick mp menv ms =
        Some (\<lparr>buffers = buffers ms @ [mt - totalAllocated ms], totalAllocated = mt\<rparr>,
              [MemIncreased (mt - totalAllocated ms) mt, MemStats mt])"
    by (rule mem_tick_grow) (use h in simp_all)
next
  assume h: "calculatePercentageSize_storage sp (free_space senv) = Inr st \<and>
    totalWritten ss < st \<and> st - totalWritten ss < 2 ^ 63 \<and> write_res senv = WriteOk"
  have "\<exists>s'. sto_tick sp senv ss =
           (s', [StoIncreased (st - totalWritten ss) st, StoIO (Suc (length (currentFiles ss)))]) \<and>
         currentFiles s' = currentFiles ss @ [fileCounter ss] \<and>
         totalWritten s' = st \<and>
         fileCounter s' = Suc (fileCounter ss) \<and>
         disk s' = appendToFile (appended senv)
                     ((currentFiles ss @ [fileCounter ss]) ! (unix_now senv mod Suc (length (currentFiles ss))))
                     1024 ((disk ss)(fileCounter ss \<mapsto> st - totalWritten ss))"
    by (rule sto_tick_grow) (use h in simp_all)
  then obtain s' where
    "sto_tick sp senv ss =
       (s', [StoIncreased (st - totalWritten ss) st, StoIO (Suc (length (currentFiles ss)))])"
    "currentFiles s' = currentFiles ss @ [fileCounter ss]" "totalWritten s' = st"
    "disk s' = appendToFile (appended senv)
                 ((currentFiles ss @ [fileCounter ss]) ! (unix_now senv mod Suc (length (currentFiles ss))))
                 1024 ((disk ss)(fileCounter ss \<mapsto> st - totalWritten ss))"
    by blast
  then show "case sto_tick sp senv ss of
         (ss', out) \<Rightarrow>
           currentFiles ss' = currentFiles ss @ [fileCounter ss] \<and>
           totalWritten ss' = st \<and>
           disk ss' = appendToFile (appended senv)
                        ((currentFiles ss @ [fileCounter ss]) !
                           (unix_now senv mod Suc (length (currentFiles ss))))
                        1024 ((disk ss)(fileCounter ss \<mapsto> st - totalWritten ss)) \<and>
           out = [StoIncreased (st - totalWritten ss) st, StoIO (Suc (length (currentFiles ss)))]"
    by simp
next
  assume "mem_tick mp menv ms = Some (ms', mout)"
  then show "\<not> (list_ex mem_grows mout \<and> list_ex mem_shrinks mout)"
    by (rule mem_tick_exclusive)
next
  assume "sto_tick sp senv ss = (ss', sout)"
  then show "\<not> (list_ex sto_grows sout \<and> list_ex sto_shrinks sout)"
    by (rule sto_tick_exclusive)
qed

lemma mem_tick_grow_example:
  "mem_tick (float64_of_int64 100) \<lparr>mem_sys = 8589934465, alloc_ok = True\<rparr>
     \<lparr>buffers = [100], totalAllocated = 100\<rparr> =
   Some (\<lparr>buffers = [100, 20], totalAllocated = 120\<rparr>, [MemIncreased 20 120, MemStats 120])"
  by (simp add: mem_tick_def calc_M1 int64_def Let_def)

lemma sto_tick_grow_example:
  "sto_tick (float64_of_int64 100)
     \<lparr>free_space = Inr 134, write_res = WriteOk, stat_ok = \<lambda>f. True, remove_ok = \<lambda>f. True,
      unix_now = 0, appended = 1024\<rparr>
     \<lparr>currentFiles = [0], totalWritten = 100, fileCounter = 1, disk = [0 \<mapsto> 100]\<rparr> =
   (\<lparr>currentFiles = [0, 1], totalWritten = 120, fileCounter = 2, disk = [0 \<mapsto> 1124, 1 \<mapsto> 20]\<rparr>,
    [StoIncreased 20 120, StoIO 2])"
  by (simp add: sto_tick_def calc_S1 int64_def Let_def writeFile_ok sto_io_def appendToFile_def
        fun_eq_iff)

theorem growth_tick_witness:
  "mem_inv \<lparr>buffers = [100], totalAllocated = 100\<rparr> \<and>
   calculatePercentageSize_memory (float64_of_int64 100) 8589934465 = Inr 120 \<and>
   mem_tick (float64_of_int64 100) \<lparr>mem_sys = 8589934465, alloc_ok = True\<rparr>
     \<lparr>buffers = [100], totalAllocated = 100\<rparr> =
   Some (\<lparr>buffers = [100, 20], totalAllocated = 120\<rparr>, [MemIncreased 20 120, MemStats 120]) \<and>
   calculatePercentageSize_storage (float64_of_int64 100) (Inr 134) = Inr 120 \<and>
   sto_tick (float64_of_int64 100)
     \<lparr>free_space = Inr 134, write_res = WriteOk, stat_ok = \<lambda>f. True, remove_ok = \<lambda>f. True,
      unix_now = 0, appended = 1024\<rparr>
     \<lparr>currentFiles = [0], totalWritten = 100, fileCounter = 1, disk = [0 \<mapsto> 100]\<rparr> =
   (\<lparr>currentFiles = [0, 1], totalWritten = 120, fileCounter = 2, disk = [0 \<mapsto> 1124, 1 \<mapsto> 20]\<rparr>,
    [StoIncreased 20 120, StoIO 2]) \<and>
   \<not> (list_ex mem_grows [MemIncreased 20 120, MemStats 120] \<and>
      list_ex mem_shrinks [MemIncreased 20 120, MemStats 120]) \<and>
   \<not> (list_ex sto_grows [StoIncreased 20 120, StoIO 2] \<and>
      list_ex sto_shrinks [StoIncreased 20 120, StoIO 2])"
  using growth_tick [of "\<lparr>buffers = [100], totalAllocated = 100\<rparr>" "float64_of_int64 100"
      "\<lparr>mem_sys = 8589934465, alloc_ok = True\<rparr>" 120 "float64_of_int64 100"
      "\<lparr>free_space = Inr 134, write_res = WriteOk, stat_ok = \<lambda>f. True, remove_ok = \<lambda>f. True,
        unix_now = 0, appended = 1024\<rparr>" 120
      "\<lparr>currentFiles = [0], totalWritten = 100, fileCounter = 1, disk = [0 \<mapsto> 100]\<rparr>"
      "\<lparr>buffers = [100, 20], totalAllocated = 120\<rparr>" "[MemIncreased 20 120, MemStats 120]"
      "\<lparr>currentFiles = [0, 1], totalWritten = 120, fileCounter = 2, disk = [0 \<mapsto> 1124, 1 \<mapsto> 20]\<rparr>"
      "[StoIncreased 20 120, StoIO 2]"]
    mem_tick_grow_example sto_tick_grow_example
  by (simp add: calc_M1 calc_S1 mem_inv_def)

section \<open>The tracked total and the held segments\<close>

text \<open>
  C3.  Memory controller: at every observation point after the initial allocation the
  tracked total is the sum of the lengths of the held buffers, and buffer 0 is held.
  Storage controller: file 0 is held at every observation point, and the tracked total
  is the sum of the on-disk sizes of the held files right after the initial write; but
  the tracked total does not follow the I/O step, so with every tick that computes a
  target and in which no operation fails, the on-disk sum moves ahead of the tracked
  total by the bytes the step appends (1024 when the append is complete).
\<close>

theorem held_total_invariant:
  "(mem_init mp menv0 = Some (Inr ms0) \<and> mx \<in> set (mem_trace mp menvs ms0) \<longrightarrow>
      totalAllocated mx = sum_list (buffers mx) \<and> buffers mx \<noteq> [] \<and>
      hd (buffers mx) = hd (buffers ms0) \<and> 0 < totalAllocated mx) \<and>
   (sto_init sp senv0 d0 = Inr ss0 \<longrightarrow>
      currentFiles ss0 = [0] \<and> totalWritten ss0 = held_bytes (disk ss0) (currentFiles ss0)) \<and>
   (sto_init sp senv0 d0 = Inr ss0 \<and> sx \<in> set (sto_trace sp senvs ss0) \<longrightarrow>
      currentFiles sx \<noteq> [] \<and> hd (currentFiles sx) = 0) \<and>
   (sto_wf ss \<and> io_ok senv ss \<and>
    calculatePercentageSize_storage sp (free_space senv) = Inr st \<and>
    st - totalWritten ss < 2 ^ 63 \<longrightarrow>
      sto_drift (fst (sto_tick sp senv ss)) = sto_drift ss + int (min (appended senv) 1024))"
proof (intro conjI impI)
  assume h: "mem_init mp menv0 = Some (Inr ms0) \<and> mx \<in> set (mem_trace mp menvs ms0)"
  then have "mem_inv ms0" using mem_init_inv by blast
  with h have inv: "mem_inv mx \<and> hd (buffers mx) = hd (buffers ms0)"
    using mem_trace_inv by blast
  then show "totalAllocated mx = sum_list (buffers mx)" "buffers mx \<noteq> []"
    "hd (buffers mx) = hd (buffers ms0)"
    by (simp_all add: mem_inv_def)
  from inv have "buffers mx \<noteq> []" "list_all (\<lambda>b. 0 < b) (buffers mx)"
    "totalAllocated mx = sum_list (buffers mx)"
    by (simp_all add: mem_inv_def)
  then show "0 < totalAllocated mx"
    by (cases "buffers mx") (simp_all add: list_all_iff add_pos_nonneg sum_list_nonneg less_imp_le)
next
  assume "sto_init sp senv0 d0 = Inr ss0"
  then show "currentFiles ss0 = [0]" "totalWritten ss0 = held_bytes (disk ss0) (currentFiles ss0)"
    using sto_init_files by blast+
next
  assume h: "sto_init sp senv0 d0 = Inr ss0 \<and> sx \<in> set (sto_trace sp senvs ss0)"
  then have z: "currentFiles ss0 = [0]" using sto_init_files by blast
  then have "currentFiles ss0 \<noteq> []" by simp
  with h have "currentFiles sx \<noteq> [] \<and> hd (currentFiles sx) = hd (currentFiles ss0)"
    using sto_trace_files by blast
  then show "currentFiles sx \<noteq> []" "hd (currentFiles sx) = 0" using z by simp_all
next
  assume h: "sto_wf ss \<and> io_ok senv ss \<and>
    calculatePercentageSize_storage sp (free_space senv) = Inr st \<and> st - totalWritten ss < 2 ^ 63"
  show "sto_drift (fst (sto_tick sp senv ss)) = sto_drift ss + int (min (appended senv) 1024)"
    by (rule sto_tick_drift [where target = st]) (use h in simp_all)
qed

lemma mem_init_example:
  "mem_init (float64_of_int64 100) \<lparr>mem_sys = 8589934465, alloc_ok = True\<rparr> =
   Some (Inr \<lparr>buffers = [120], totalAllocated = 120\<rparr>)"
  by (simp add: mem_init_def calc_M1)

lemma sto_init_example:
  "sto_init (float64_of_int64 100)
     \<lparr>free_space = Inr 134, write_res = WriteOk, stat_ok = \<lambda>f. True, remove_ok = \<lambda>f. True,
      unix_now = 0, appended = 1024\<rparr> Map.empty =
   Inr \<lparr>currentFiles = [0], totalWritten = 120, fileCounter = 1, disk = [0 \<mapsto> 120]\<rparr>"
  by (simp add: sto_init_def calc_S1 writeFile_ok)

lemma sto_tick_keep_example:
  "sto_tick (float64_of_int64 100)
     \<lparr>free_space = Inr 134, write_res = WriteOk, stat_ok = \<lambda>f. True, remove_ok = \<lambda>f. True,
      unix_now = 0, appended = 1024\<rparr>
     \<lparr>currentFiles = [0], totalWritten = 120, fileCounter = 1, disk = [0 \<mapsto> 120]\<rparr> =
   (\<lparr>currentFiles = [0], totalWritten = 120, fileCounter = 1, disk = [0 \<mapsto> 1144]\<rparr>, [StoIO 1])"
  by (simp add: sto_tick_def calc_S1 Let_def sto_io_def appendToFile_def fun_eq_iff)

theorem held_total_invariant_witness:
  "mem_init (float64_of_int64 100) \<lparr>mem_sys = 8589934465, alloc_ok = True\<rparr> =
     Some (Inr \<lparr>buffers = [120], totalAllocated = 120\<rparr>) \<and>
   \<lparr>buffers = [120], totalAllocated = 120\<rparr> \<in>
     set (mem_trace (float64_of_int64 100) [\<lparr>mem_sys = 8589934465, alloc_ok = True\<rparr>]
            \<lparr>buffers = [120], totalAllocated = 120\<rparr>) \<and>
   sto_init (float64_of_int64 100)
     \<lparr>free_space = Inr 134, write_res = WriteOk, stat_ok = \<lambda>f. True, remove_ok = \<lambda>f. True,
      unix_now = 0, appended = 1024\<rparr> Map.empty =
     Inr \<lparr>currentFiles = [0], totalWritten = 120, fileCounter = 1, disk = [0 \<mapsto> 120]\<rparr> \<and>
   \<lparr>currentFiles = [0], totalWritten = 120, fileCounter = 1, disk = [0 \<mapsto> 1144]\<rparr> \<in>
     set (sto_trace (float64_of_int64 100)
            [\<lparr>free_space = Inr 134, write_res = WriteOk, stat_ok = \<lambda>f. True, remove_ok = \<lambda>f. True,
              unix_now = 0, appended = 1024\<rparr>]
            \<lparr>currentFiles = [0], totalWritten = 120, fileCounter = 1, disk = [0 \<mapsto> 120]\<rparr>) \<and>
   sto_wf \<lparr>currentFiles = [0], totalWritten = 120, fileCounter = 1, disk = [0 \<mapsto> 120]\<rparr> \<and>
   sto_drift (fst (sto_tick (float64_of_int64 100)
     \<lparr>free_space = Inr 134, write_res = WriteOk, stat_ok = \<lambda>f. True, remove_ok = \<lambda>f. True,
      unix_now = 0, appended = 1024\<rparr>
     \<lparr>currentFiles = [0], totalWritten = 120, fileCounter = 1, disk = [0 \<mapsto> 120]\<rparr>)) = 1024"
  using held_total_invariant [of "float64_of_int64 100"
      "\<lparr>mem_sys = 8589934465, alloc_ok = True\<rparr>" "\<lparr>buffers = [120], totalAllocated = 120\<rparr>"
      "\<lparr>buffers = [120], totalAllocated = 120\<rparr>"
      "[\<lparr>mem_sys = 8589934465, alloc_ok = True\<rparr>]"
      "float64_of_int64 100"
      "\<lparr>free_space = Inr 134, write_res = WriteOk, stat_ok = \<lambda>f. True, remove_ok = \<lambda>f. True,
        unix_now = 0, appended = 1024\<rparr>" Map.empty
      "\<lparr>currentFiles = [0], totalWritten = 120, fileCounter = 1, disk = [0 \<mapsto> 120]\<rparr>"
      "\<lparr>currentFiles = [0], totalWritten = 120, fileCounter = 1, disk = [0 \<mapsto> 1144]\<rparr>"
      "[\<lparr>free_space = Inr 134, write_res = WriteOk, stat_ok = \<lambda>f. True, remove_ok = \<lambda>f. True,
         unix_now = 0, appended = 1024\<rparr>]"
      "\<lparr>currentFiles = [0], totalWritten = 120, fileCounter = 1, disk = [0 \<mapsto> 120]\<rparr>"
      "\<lparr>free_space = Inr 134, write_res = WriteOk, stat_ok = \<lambda>f. True, remove_ok = \<lambda>f. True,
        unix_now = 0, appended = 1024\<rparr>" 120]
    mem_init_example sto_init_example sto_tick_keep_example
  by (simp add: calc_S1 sto_wf_def sto_present_def io_ok_def sto_drift_def held_bytes_def
        file_size_def)

theorem held_total_counterexample:
  "sto_init (float64_of_int64 100)
     \<lparr>free_space = Inr 134, write_res = WriteOk, stat_ok = \<lambda>f. True, remove_ok = \<lambda>f. True,
      unix_now = 0, appended = 1024\<rparr> Map.empty =
     Inr \<lparr>currentFiles = [0], totalWritten = 120, fileCounter = 1, disk = [0 \<mapsto> 120]\<rparr> \<and>
   sto_trace (float64_of_int64 100)
     [\<lparr>free_space = Inr 134, write_res = WriteOk, stat_ok = \<lambda>f. True, remove_ok = \<lambda>f. True,
       unix_now = 0, appended = 1024\<rparr>]
     \<lparr>currentFiles = [0], totalWritten = 120, fileCounter = 1, disk = [0 \<mapsto> 120]\<rparr> =
     [\<lparr>currentFiles = [0], totalWritten = 120, fileCounter = 1, disk = [0 \<mapsto> 120]\<rparr>,
      \<lparr>currentFiles = [0], totalWritten = 120, fileCounter = 1, disk = [0 \<mapsto> 1144]\<rparr>] \<and>
   totalWritten \<lparr>currentFiles = [0], totalWritten = 120, fileCounter = 1, disk = [0 \<mapsto> 1144]\<rparr> = 120 \<and>
   held_bytes [0 \<mapsto> 1144] [0] = 1144"
  using sto_init_example sto_tick_keep_example
  by (simp add: held_bytes_def file_size_def)

section \<open>The free memory the target is computed from\<close>

lemma calc_memory_insufficient:
  assumes "8589934592 \<le> sys" and "sys < 2 ^ 63"
  shows "calculatePercentageSize_memory percent sys = Inl InsufficientFreeMemory"
proof -
  have used: "int64 (int sys) = int sys"
    using assms(2) by (intro int64_id) (simp add: is_int64_def)
  have "is_int64 (8589934592 - int sys)"
    using assms by (simp add: is_int64_def)
  then have free: "int64 (8589934592 - int sys) = 8589934592 - int sys"
    by (rule int64_id)
  show ?thesis
    using assms(1) by (simp add: calculatePercentageSize_memory_def Let_def used free)
qed

text \<open>
  C4.  The memory controller does not ask the operating system for the free memory: at
  every call it reads \<^verbatim>\<open>runtime.MemStats.Sys\<close>, the bytes this process has obtained, and
  takes the free memory to be the constant 8 GiB minus that.  So once the process has
  obtained 8 GiB the calculation fails with \<^verbatim>\<open>insufficient free memory\<close> on every
  machine, and at 100 percent with 16 MiB obtained the target is 8144499507, the whole
  bytes of \<open>0.95 * (8 GiB - 16 MiB)\<close>, whatever the machine has free.  The formula is
  applied in two steps, each converted to \<^verbatim>\<open>int64\<close> by truncation: 10 percent of 219
  free bytes of disk give 21 and then 18, where \<open>219 * 0.1 * 0.9\<close> is 19.71.
\<close>

theorem memory_probe_constant:
  "(8589934592 \<le> sys \<and> sys < 2 ^ 63 \<longrightarrow>
      calculatePercentageSize_memory percent sys = Inl InsufficientFreeMemory) \<and>
   calculatePercentageSize_memory (float64_of_int64 100) 16777216 = Inr 8144499507 \<and>
   calculatePercentageSize_storage (float64_of_int64 10) (Inr 219) = Inr 18"
  using calc_memory_insufficient [of sys percent] calc_M5 calc_S3 by blast

theorem memory_probe_constant_witness:
  "calculatePercentageSize_memory (float64_of_int64 100) 8589934592 = Inl InsufficientFreeMemory \<and>
   calculatePercentageSize_memory (float64_of_int64 50) 17179869184 = Inl InsufficientFreeMemory"
  using memory_probe_constant [of 8589934592 "float64_of_int64 100"]
    memory_probe_constant [of 17179869184 "float64_of_int64 50"]
  by simp

section \<open>Targets that are not positive\<close>

lemma f64_of_ratio_0: "f64_of_ratio negative 0 b = Fin 0 0"
  by (simp add: f64_of_ratio_def nearest_f64_def)

lemma calc_storage_0:
  "calculatePercentageSize_storage (float64_of_int64 100) (Inr 0) = Inl InvalidStorageSize"
  by (simp add: calculatePercentageSize_storage_def Let_def float64_of_int64_100 float_100_eq
        float_0_90_eq float64_of_int64_0 f64_of_ratio_0 trunc_f64_def is_int64_def)

text \<open>
  C5.  A computed target is never returned unless it is positive: a target \<open>\<le> 0\<close>, like
  a failed probe, is an error of the calculation.  On such an error in the initial
  calculation the controller reports it and returns at once, holding nothing (the
  memory controller prints it; the storage controller returns it to \<^verbatim>\<open>GenerateLoad\<close>,
  which prints it); the process goes on.  On such an error in the calculation of a
  tick the controller prints it and skips the rest of the tick: it keeps what it holds
  and goes on with the next tick (it does not exit).
\<close>

theorem nonpositive_target:
  "(calculatePercentageSize_memory mp sys = Inr t \<longrightarrow> 0 < t) \<and>
   (calculatePercentageSize_storage sp probe = Inr t' \<longrightarrow> 0 < t') \<and>
   (calculatePercentageSize_memory mp (mem_sys menv0) = Inl err \<longrightarrow>
      generateDynamicLoad mp menv0 menvs = Some (\<lparr>buffers = [], totalAllocated = 0\<rparr>, [MemError err])) \<and>
   (calculatePercentageSize_storage sp (free_space senv0) = Inl serr \<longrightarrow>
      performDynamicStorageOperations sp senv0 senvs d = (Some (CalcError serr), [], d)) \<and>
   (calculatePercentageSize_memory mp (mem_sys menv) = Inl err \<longrightarrow>
      mem_tick mp menv ms = Some (ms, [MemRecalcError err])) \<and>
   (calculatePercentageSize_storage sp (free_space senv) = Inl serr \<longrightarrow>
      sto_tick sp senv ss = (ss, [StoRecalcError serr]))"
proof (intro conjI impI)
  assume "calculatePercentageSize_memory mp sys = Inr t"
  then show "0 < t" using calc_memory_Inr by blast
next
  assume "calculatePercentageSize_storage sp probe = Inr t'"
  then show "0 < t'" using calc_storage_Inr by blast
next
  assume "calculatePercentageSize_memory mp (mem_sys menv0) = Inl err"
  then show "generateDynamicLoad mp menv0 menvs =
      Some (\<lparr>buffers = [], totalAllocated = 0\<rparr>, [MemError err])"
    by (simp add: generateDynamicLoad_def mem_init_def)
next
  assume "calculatePercentageSize_storage sp (free_space senv0) = Inl serr"
  then show "performDynamicStorageOperations sp senv0 senvs d = (Some (CalcError serr), [], d)"
    by (simp add: performDynamicStorageOperations_def sto_init_def)
next
  assume "calculatePercentageSize_memory mp (mem_sys menv) = Inl err"
  then show "mem_tick mp menv ms = Some (ms, [MemRecalcError err])" by (rule mem_tick_error)
next
  assume "calculatePercentageSize_storage sp (free_space senv) = Inl serr"
  then show "sto_tick sp senv ss = (ss, [StoRecalcError serr])" by (rule sto_tick_error)
qed

theorem nonpositive_target_witness:
  "calculatePercentageSize_memory (float64_of_int64 100) 8589934465 = Inr 120 \<and>
   calculatePercentageSize_storage (float64_of_int64 100) (Inr 134) = Inr 120 \<and>
   calculatePercentageSize_memory (float64_of_int64 100) 8589934591 = Inl InvalidMemorySize \<and>
   generateDynamicLoad (float64_of_int64 100) \<lparr>mem_sys = 8589934591, alloc_ok = True\<rparr>
     [\<lparr>mem_sys = 8589934465, alloc_ok = True\<rparr>] =
     Some (\<lparr>buffers = [], totalAllocated = 0\<rparr>, [MemError InvalidMemorySize]) \<and>
   calculatePercentageSize_storage (float64_of_int64 100) (Inr 0) = Inl InvalidStorageSize \<and>
   performDynamicStorageOperations (float64_of_int64 100)
     \<lparr>free_space = Inr 0, write_res = WriteOk, stat_ok = \<lambda>f. True, remove_ok = \<lambda>f. True,
      unix_now = 0, appended = 1024\<rparr> [] Map.empty =
     (Some (CalcError InvalidStorageSize), [], Map.empty) \<and>
   mem_tick (float64_of_int64 100) \<lparr>mem_sys = 8589934591, alloc_ok = True\<rparr>
     \<lparr>buffers = [120], totalAllocated = 120\<rparr> =
     Some (\<lparr>buffers = [120], totalAllocated = 120\<rparr>, [MemRecalcError InvalidMemorySize]) \<and>
   sto_tick (float64_of_int64 100)
     \<lparr>free_space = Inr 0, write_res = WriteOk, stat_ok = \<lambda>f. True, remove_ok = \<lambda>f. True,
      unix_now = 0, appended = 1024\<rparr>
     \<lparr>currentFiles = [0], totalWritten = 120, fileCounter = 1, disk = [0 \<mapsto> 120]\<rparr> =
     (\<lparr>currentFiles = [0], totalWritten = 120, fileCounter = 1, disk = [0 \<mapsto> 120]\<rparr>,
      [StoRecalcError InvalidStorageSize])"
  using nonpositive_target [of "float64_of_int64 100" 8589934465 120 "float64_of_int64 100"
      "Inr 134" 120 "\<lparr>mem_sys = 8589934591, alloc_ok = True\<rparr>" InvalidMemorySize
      "[\<lparr>mem_sys = 8589934465, alloc_ok = True\<rparr>]"
      "\<lparr>free_space = Inr 0, write_res = WriteOk, stat_ok = \<lambda>f. True, remove_ok = \<lambda>f. True,
        unix_now = 0, appended = 1024\<rparr>" InvalidStorageSize "[]" Map.empty
      "\<lparr>mem_sys = 8589934591, alloc_ok = True\<rparr>" "\<lparr>buffers = [120], totalAllocated = 120\<rparr>"
      "\<lparr>free_space = Inr 0, write_res = WriteOk, stat_ok = \<lambda>f. True, remove_ok = \<lambda>f. True,
        unix_now = 0, appended = 1024\<rparr>"
      "\<lparr>currentFiles = [0], totalWritten = 120, fileCounter = 1, disk = [0 \<mapsto> 120]\<rparr>"]
  by (simp add: calc_M1 calc_S1 calc_M3 calc_storage_0)

lemma mem_run_example:
  "generateDynamicLoad (float64_of_int64 100) \<lparr>mem_sys = 8589934465, alloc_ok = True\<rparr>
     [\<lparr>mem_sys = 8589934591, alloc_ok = True\<rparr>, \<lparr>mem_sys = 8589934465, alloc_ok = True\<rparr>] =
   Some (\<lparr>buffers = [], totalAllocated = 120\<rparr>,
         [MemInitial 120, MemRecalcError InvalidMemorySize, MemStats 120, MemStopping])"
  by (simp add: generateDynamicLoad_def mem_init_def mem_tick_def calc_M1 calc_M3)

theorem nonpositive_target_counterexample:
  "calculatePercentageSize_memory (float64_of_int64 100) 8589934591 = Inl InvalidMemorySize \<and>
   generateDynamicLoad (float64_of_int64 100) \<lparr>mem_sys = 8589934465, alloc_ok = True\<rparr>
     [\<lparr>mem_sys = 8589934591, alloc_ok = True\<rparr>, \<lparr>mem_sys = 8589934465, alloc_ok = True\<rparr>] =
   Some (\<lparr>buffers = [], totalAllocated = 120\<rparr>,
         [MemInitial 120, MemRecalcError InvalidMemorySize, MemStats 120, MemStopping]) \<and>
   mem_trace (float64_of_int64 100)
     [\<lparr>mem_sys = 8589934591, alloc_ok = True\<rparr>, \<lparr>mem_sys = 8589934465, alloc_ok = True\<rparr>]
     \<lparr>buffers = [120], totalAllocated = 120\<rparr> =
   [\<lparr>buffers = [120], totalAllocated = 120\<rparr>, \<lparr>buffers = [120], totalAllocated = 120\<rparr>,
    \<lparr>buffers = [120], totalAllocated = 120\<rparr>]"
  using mem_run_example by (simp add: mem_tick_def calc_M1 calc_M3)

section \<open>Cleanup on exit\<close>

text \<open>
  C6.  \<^verbatim>\<open>GenerateLoad\<close> of the storage allocator, static or dynamic, ends in the deferred
  \<^verbatim>\<open>os.RemoveAll\<close> of the temporary directory whenever it has created the directory,
  whatever the allocator returned (deadline, cancellation or error) and whatever files
  it left: when that call does its work the directory is gone on return, and when the
  directory could not be created there is none.  The dynamic memory controller holds no
  buffer when it returns.
\<close>

theorem cleanup_on_exit:
  "(removeall_ok run \<longrightarrow> GenerateLoad_storage run sz = None) \<and>
   (\<not> mkdir_ok run \<longrightarrow> GenerateLoad_storage run sz = None) \<and>
   (generateDynamicLoad mp menv0 menvs = Some (ms', out) \<longrightarrow> buffers ms' = [])"
proof (intro conjI impI)
  assume "removeall_ok run"
  then show "GenerateLoad_storage run sz = None"
    by (simp add: GenerateLoad_storage_def RemoveAll_def)
next
  assume "\<not> mkdir_ok run"
  then show "GenerateLoad_storage run sz = None"
    by (simp add: GenerateLoad_storage_def)
next
  assume "generateDynamicLoad mp menv0 menvs = Some (ms', out)"
  then show "buffers ms' = []" by (rule generateDynamicLoad_releases)
qed

lemma failed_write_example:
  "performDynamicStorageOperations (float64_of_int64 100)
     \<lparr>free_space = Inr 134, write_res = WriteFailed 64, stat_ok = \<lambda>f. True,
      remove_ok = \<lambda>f. True, unix_now = 0, appended = 1024\<rparr> [] Map.empty =
   (Some InitialWriteError, [], [0 \<mapsto> 64])"
  by (simp add: performDynamicStorageOperations_def sto_init_def calc_S1 writeFile_def)

theorem cleanup_on_exit_witness:
  "snd (snd (performDynamicStorageOperations (float64_of_int64 100)
     \<lparr>free_space = Inr 134, write_res = WriteFailed 64, stat_ok = \<lambda>f. True,
      remove_ok = \<lambda>f. True, unix_now = 0, appended = 1024\<rparr> [] Map.empty)) 0 = Some 64 \<and>
   GenerateLoad_storage
     \<lparr>mkdir_ok = True, removeall_ok = True,
      dyn_init = \<lparr>free_space = Inr 134, write_res = WriteFailed 64, stat_ok = \<lambda>f. True,
                  remove_ok = \<lambda>f. True, unix_now = 0, appended = 1024\<rparr>,
      dyn_ticks = [],
      stat_env = \<lparr>cancelled_before = \<lambda>i. False, static_write = \<lambda>i. WriteOk, static_appended = []\<rparr>\<rparr>
     (- 100) = None \<and>
   GenerateLoad_storage
     \<lparr>mkdir_ok = False, removeall_ok = True,
      dyn_init = \<lparr>free_space = Inr 134, write_res = WriteFailed 64, stat_ok = \<lambda>f. True,
                  remove_ok = \<lambda>f. True, unix_now = 0, appended = 1024\<rparr>,
      dyn_ticks = [],
      stat_env = \<lparr>cancelled_before = \<lambda>i. False, static_write = \<lambda>i. WriteOk, static_appended = []\<rparr>\<rparr>
     (- 100) = None \<and>
   generateDynamicLoad (float64_of_int64 100) \<lparr>mem_sys = 8589934465, alloc_ok = True\<rparr>
     [\<lparr>mem_sys = 8589934591, alloc_ok = True\<rparr>, \<lparr>mem_sys = 8589934465, alloc_ok = True\<rparr>] =
   Some (\<lparr>buffers = [], totalAllocated = 120\<rparr>,
         [MemInitial 120, MemRecalcError InvalidMemorySize, MemStats 120, MemStopping])"
  using cleanup_on_exit [of
      "\<lparr>mkdir_ok = True, removeall_ok = True,
        dyn_init = \<lparr>free_space = Inr 134, write_res = WriteFailed 64, stat_ok = \<lambda>f. True,
                    remove_ok = \<lambda>f. True, unix_now = 0, appended = 1024\<rparr>,
        dyn_ticks = [],
        stat_env = \<lparr>cancelled_before = \<lambda>i. False, static_write = \<lambda>i. WriteOk, static_appended = []\<rparr>\<rparr>"
      "- 100" "float64_of_int64 100" "\<lparr>mem_sys = 8589934465, alloc_ok = True\<rparr>"
      "[\<lparr>mem_sys = 8589934591, alloc_ok = True\<rparr>, \<lparr>mem_sys = 8589934465, alloc_ok = True\<rparr>]"
      "\<lparr>buffers = [], totalAllocated = 120\<rparr>"
      "[MemInitial 120, MemRecalcError InvalidMemorySize, MemStats 120, MemStopping]"]
    cleanup_on_exit [of
      "\<lparr>mkdir_ok = False, removeall_ok = True,
        dyn_init = \<lparr>free_space = Inr 134, write_res = WriteFailed 64, stat_ok = \<lambda>f. True,
                    remove_ok = \<lambda>f. True, unix_now = 0, appended = 1024\<rparr>,
        dyn_ticks = [],
        stat_env = \<lparr>cancelled_before = \<lambda>i. False, static_write = \<lambda>i. WriteOk, static_appended = []\<rparr>\<rparr>"
      "- 100"]
    mem_run_example failed_write_example
  by simp

end
